theory Spec2Isabelle
  imports Complex_Main "HOL-Library.Multiset"
begin

section \<open>JSON values\<close>

text \<open>
  The validator receives parsed JSON. Numbers are modelled by their exact rational
  value, strings by lists of 8-bit characters, objects by association lists in
  the enumeration order of their own keys. The JavaScript value \<open>undefined\<close> (an absent
  property) is \<open>None\<close> of type \<open>json option\<close>.
\<close>

datatype json =
  JNull
  | JBool bool
  | JNumber rat
  | JString string
  | JArray "json list"
  | JObject "(string \<times> json) list"

text \<open>The own keys of an object, as \<open>for (const key in data)\<close> enumerates them.\<close>

definition keys_of :: "(string \<times> json) list \<Rightarrow> string list" where
  "keys_of kvs = map fst kvs"

text \<open>Zod's \<open>getParsedType\<close>: arrays and \<open>null\<close> are told apart from objects.\<close>

fun getParsedType :: "json option \<Rightarrow> string" where
  "getParsedType None = ''undefined''"
| "getParsedType (Some JNull) = ''null''"
| "getParsedType (Some (JBool b)) = ''boolean''"
| "getParsedType (Some (JNumber n)) = ''number''"
| "getParsedType (Some (JString s)) = ''string''"
| "getParsedType (Some (JArray xs)) = ''array''"
| "getParsedType (Some (JObject kvs)) = ''object''"

text \<open>JavaScript's \<open>typeof\<close> operator: arrays and \<open>null\<close> are both \<open>'object'\<close>.\<close>

fun typeof :: "json \<Rightarrow> string" where
  "typeof JNull = ''object''"
| "typeof (JBool b) = ''boolean''"
| "typeof (JNumber n) = ''number''"
| "typeof (JString s) = ''string''"
| "typeof (JArray xs) = ''object''"
| "typeof (JObject kvs) = ''object''"

fun isArray :: "json \<Rightarrow> bool" where
  "isArray (JArray xs) = True"
| "isArray j = False"

text \<open>
  Strict equality \<open>===\<close> of a value with a primitive (a boolean or a string): an object or
  an array is never strictly equal to a primitive.
\<close>

fun strict_eq_bool :: "json \<Rightarrow> bool \<Rightarrow> bool" where
  "strict_eq_bool (JBool a) b = (a = b)"
| "strict_eq_bool j b = False"

fun strict_eq_string :: "json \<Rightarrow> string \<Rightarrow> bool" where
  "strict_eq_string (JString a) b = (a = b)"
| "strict_eq_string j b = False"

section \<open>Regular expressions\<close>

text \<open>
  The patterns of the source use character classes, concatenation, alternation and
  repetition only, all anchored with \<open>^\<close> and \<open>$\<close>, so \<open>RegExp.test\<close> is membership of
  the whole string in a regular language. It is decided with Brzozowski derivatives.
\<close>

datatype rx =
  Zero
  | One
  | Atom "char \<Rightarrow> bool"
  | Alt rx rx
  | Seq rx rx
  | Star rx

fun nullable :: "rx \<Rightarrow> bool" where
  "nullable Zero = False"
| "nullable One = True"
| "nullable (Atom P) = False"
| "nullable (Alt r s) = (nullable r \<or> nullable s)"
| "nullable (Seq r s) = (nullable r \<and> nullable s)"
| "nullable (Star r) = True"

fun alt :: "rx \<Rightarrow> rx \<Rightarrow> rx" where
  "alt Zero s = s"
| "alt r Zero = r"
| "alt r s = Alt r s"

fun seq :: "rx \<Rightarrow> rx \<Rightarrow> rx" where
  "seq Zero s = Zero"
| "seq One s = s"
| "seq r s = Seq r s"

fun deriv :: "char \<Rightarrow> rx \<Rightarrow> rx" where
  "deriv c Zero = Zero"
| "deriv c One = Zero"
| "deriv c (Atom P) = (if P c then One else Zero)"
| "deriv c (Alt r s) = alt (deriv c r) (deriv c s)"
| "deriv c (Seq r s) =
     (if nullable r then alt (seq (deriv c r) s) (deriv c s) else seq (deriv c r) s)"
| "deriv c (Star r) = seq (deriv c r) (Star r)"

fun regex_test :: "rx \<Rightarrow> string \<Rightarrow> bool" where
  "regex_test r [] = nullable r"
| "regex_test r (c # cs) = regex_test (deriv c r) cs"

text \<open>Derived forms: \<open>r+\<close>, \<open>r?\<close>, a literal character, the classes of the source.\<close>

definition Plus :: "rx \<Rightarrow> rx" where
  "Plus r = Seq r (Star r)"

definition Opt :: "rx \<Rightarrow> rx" where
  "Opt r = Alt r One"

definition Chr :: "char \<Rightarrow> rx" where
  "Chr c = Atom (\<lambda>x. x = c)"

definition OneOf :: "string \<Rightarrow> rx" where
  "OneOf cs = Atom (\<lambda>x. x \<in> set cs)"

definition NoneOf :: "string \<Rightarrow> rx" where
  "NoneOf cs = Atom (\<lambda>x. x \<notin> set cs)"

definition lower :: string where
  "lower = ''abcdefghijklmnopqrstuvwxyz''"

definition upper :: string where
  "upper = ''ABCDEFGHIJKLMNOPQRSTUVWXYZ''"

definition digit :: string where
  "digit = ''0123456789''"

text \<open>\<open>[a-z0-9]\<close>, \<open>\d\<close>, \<open>\w\<close>, \<open>[\w-]\<close>, and \<open>[a-z0-9]\<close>, \<open>[0-9a-f]\<close>, \<open>[a-z0-9-]\<close> under the \<open>i\<close> flag.\<close>

definition lower_digit :: rx where
  "lower_digit = OneOf (lower @ digit)"

definition rx_digit :: rx where
  "rx_digit = OneOf digit"

definition rx_word :: rx where
  "rx_word = OneOf (lower @ upper @ digit @ ''_'')"

definition rx_word_hyphen :: rx where
  "rx_word_hyphen = OneOf (lower @ upper @ digit @ ''_-'')"

definition alnum_i :: rx where
  "alnum_i = OneOf (lower @ upper @ digit)"

definition hex_i :: rx where
  "hex_i = OneOf (digit @ ''abcdefABCDEF'')"

definition alnum_hyphen_i :: rx where
  "alnum_hyphen_i = OneOf (lower @ upper @ digit @ ''-'')"

text \<open>\<open>[a-z0-9]+(?:-[a-z0-9]+)*\<close>, the body of a slug.\<close>

definition slug_body :: rx where
  "slug_body = Seq (Plus lower_digit) (Star (Seq (Chr CHR ''-'') (Plus lower_digit)))"

text \<open>\<open>/^[a-z0-9]+(?:-[a-z0-9]+)*$/\<close>\<close>

definition slug_re :: rx where
  "slug_re = slug_body"

text \<open>\<open>/^[a-z0-9]+(?:-[a-z0-9]+)*(?::[a-z0-9]+(?:-[a-z0-9]+)*)*(?::-?\d+)?$/\<close>\<close>

definition rollOption_re :: rx where
  "rollOption_re =
     Seq slug_body
       (Seq (Star (Seq (Chr CHR '':'') slug_body))
            (Opt (Seq (Chr CHR '':'') (Seq (Opt (Chr CHR ''-'')) (Plus rx_digit)))))"

text \<open>\<open>/^#[0-9a-f]{3}(?:[0-9a-f]{3})?$/i\<close>\<close>

definition hexColour_re :: rx where
  "hexColour_re =
     Seq (Chr CHR ''#'')
       (Seq (Seq hex_i (Seq hex_i hex_i)) (Opt (Seq hex_i (Seq hex_i hex_i))))"

text \<open>\<open>/^\w[^":<>?\\|/]+(?:\/[^":<>?\\|/]+)+\.\w\w\w\w?$/\<close>\<close>

definition path_char :: rx where
  "path_char = NoneOf [CHR 0x22, CHR '':'', CHR ''<'', CHR ''>'', CHR ''?'', CHR 0x5C, CHR ''|'', CHR ''/'']"

definition filePath_re :: rx where
  "filePath_re =
     Seq rx_word
       (Seq (Plus path_char)
         (Seq (Plus (Seq (Chr CHR ''/'') (Plus path_char)))
           (Seq (Chr CHR ''.'')
             (Seq rx_word (Seq rx_word (Seq rx_word (Opt rx_word)))))))"

text \<open>\<open>/^\w[\w-]+(?:\.(?:[\w-]+|\{\w+(?:,[^{},]+)+\}))+$/\<close>\<close>

definition sequencerDBEntry_re :: rx where
  "sequencerDBEntry_re =
     Seq rx_word
       (Seq (Plus rx_word_hyphen)
         (Plus (Seq (Chr CHR ''.'')
           (Alt (Plus rx_word_hyphen)
             (Seq (Chr CHR ''{'')
               (Seq (Plus rx_word)
                 (Seq (Plus (Seq (Chr CHR '','') (Plus (NoneOf ''{},''))))
                   (Chr CHR ''}''))))))))"

text \<open>\<open>/^[a-z0-9]+(?:\.[a-z0-9-]+)+$/i\<close>\<close>

definition uuid_re :: rx where
  "uuid_re = Seq (Plus alnum_i) (Plus (Seq (Chr CHR ''.'') (Plus alnum_hyphen_i)))"

section \<open>Issues and parse results\<close>

text \<open>
  A Zod issue carries a code with its code-specific fields, the path from the root of the
  parsed value, and a message. The message is \<open>Some m\<close> where the source supplies \<open>m\<close> and
  \<open>None\<close> where Zod's default error map writes it.
\<close>

datatype path_elem = Key string | Idx nat

datatype issue = Issue (code: zcode) (path: "path_elem list") (message: "string option")
and zcode =
  invalid_type string string
  | invalid_literal json
  | custom
  | invalid_union "issue list list"
  | invalid_union_discriminator "string list"
  | invalid_enum_value "string list"
  | unrecognized_keys "string list"
  | invalid_string string
  | too_small rat bool string
  | too_big rat bool string

text \<open>
  Zod's parse status: \<open>Dirty\<close> is a value that was read but broke a check, \<open>Aborted\<close> is
  Zod's \<open>INVALID\<close>, which carries no value. The issues are those pushed onto the parse
  context during the parse, in order.
\<close>

datatype pstatus = Valid | Dirty | Aborted

datatype presult = PResult (status: pstatus) (issues_of: "issue list") (parsed: "json option")

type_synonym schema = "path_elem list \<Rightarrow> json option \<Rightarrow> presult"

definition INVALID :: "issue list \<Rightarrow> presult" where
  "INVALID is = PResult Aborted is None"

definition invalid_type_at :: "path_elem list \<Rightarrow> string \<Rightarrow> json option \<Rightarrow> presult" where
  "invalid_type_at p expected inp =
     INVALID [Issue (invalid_type expected (getParsedType inp)) p None]"

text \<open>\<open>ParseStatus\<close>: aborted if any part is aborted, else dirty if any part is dirty.\<close>

definition merge_status :: "pstatus list \<Rightarrow> pstatus" where
  "merge_status ss =
     (if Aborted \<in> set ss then Aborted else if Dirty \<in> set ss then Dirty else Valid)"

section \<open>Zod schemas\<close>

subsection \<open>Primitives\<close>

datatype string_check = MinLength nat "string option" | Regex rx string

fun string_check_issues :: "path_elem list \<Rightarrow> string \<Rightarrow> string_check \<Rightarrow> issue list" where
  "string_check_issues p s (MinLength n m) =
     (if length s < n then [Issue (too_small (of_nat n) True ''string'') p m] else [])"
| "string_check_issues p s (Regex r m) =
     (if regex_test r s then [] else [Issue (invalid_string ''regex'') p (Some m)])"

definition z_string :: "string_check list \<Rightarrow> schema" where
  "z_string checks p inp =
     (case inp of
        Some (JString s) \<Rightarrow>
          (let is = concat (map (string_check_issues p s) checks)
           in PResult (if is = [] then Valid else Dirty) is inp)
      | _ \<Rightarrow> invalid_type_at p ''string'' inp)"

text \<open>
  Number checks: \<open>.int()\<close>, and a lower or upper bound with its inclusiveness
  (\<open>.gt(v)\<close> is \<open>Min v False\<close>, \<open>.gte(v)\<close> and \<open>.min(v)\<close> are \<open>Min v True\<close>, \<open>.positive()\<close> is
  \<open>Min 0 False\<close>, \<open>.lt(v)\<close> is \<open>Max v False\<close>, \<open>.lte(v)\<close> is \<open>Max v True\<close>).
\<close>

datatype number_check = IsInt | Min rat bool | Max rat bool

definition isInteger :: "rat \<Rightarrow> bool" where
  "isInteger n = (of_int \<lfloor>n\<rfloor> = n)"

fun number_check_issues :: "path_elem list \<Rightarrow> rat \<Rightarrow> number_check \<Rightarrow> issue list" where
  "number_check_issues p n IsInt =
     (if isInteger n then [] else [Issue (invalid_type ''integer'' ''float'') p None])"
| "number_check_issues p n (Min v inclusive) =
     (if (if inclusive then n < v else n \<le> v)
      then [Issue (too_small v inclusive ''number'') p None] else [])"
| "number_check_issues p n (Max v inclusive) =
     (if (if inclusive then n > v else n \<ge> v)
      then [Issue (too_big v inclusive ''number'') p None] else [])"

definition z_number :: "number_check list \<Rightarrow> schema" where
  "z_number checks p inp =
     (case inp of
        Some (JNumber n) \<Rightarrow>
          (let is = concat (map (number_check_issues p n) checks)
           in PResult (if is = [] then Valid else Dirty) is inp)
      | _ \<Rightarrow> invalid_type_at p ''number'' inp)"

abbreviation positive :: number_check where
  "positive \<equiv> Min 0 False"

definition z_boolean :: schema where
  "z_boolean p inp =
     (case inp of Some (JBool b) \<Rightarrow> PResult Valid [] inp | _ \<Rightarrow> invalid_type_at p ''boolean'' inp)"

definition z_null :: schema where
  "z_null p inp =
     (case inp of Some JNull \<Rightarrow> PResult Valid [] inp | _ \<Rightarrow> invalid_type_at p ''null'' inp)"

definition z_undefined :: schema where
  "z_undefined p inp =
     (case inp of None \<Rightarrow> PResult Valid [] inp | _ \<Rightarrow> invalid_type_at p ''undefined'' inp)"

definition z_literal :: "json \<Rightarrow> schema" where
  "z_literal v p inp =
     (if inp = Some v then PResult Valid [] inp
      else INVALID [Issue (invalid_literal v) p None])"

text \<open>
  Zod's \<open>util.joinValues\<close>, which names the expected values of an enum as
  \<open>'a' | 'b' | ...\<close>.
\<close>

fun joinValues :: "string list \<Rightarrow> string" where
  "joinValues [] = []"
| "joinValues [v] = CHR 0x27 # v @ [CHR 0x27]"
| "joinValues (v # w # ws) = CHR 0x27 # v @ [CHR 0x27] @ '' | '' @ joinValues (w # ws)"

definition z_enum :: "string list \<Rightarrow> schema" where
  "z_enum options p inp =
     (case inp of
        Some (JString s) \<Rightarrow>
          (if s \<in> set options then PResult Valid [] inp
           else INVALID [Issue (invalid_enum_value options) p None])
      | _ \<Rightarrow> INVALID [Issue (invalid_type (joinValues options) (getParsedType inp)) p None])"

definition z_optional :: "schema \<Rightarrow> schema" where
  "z_optional s p inp = (case inp of None \<Rightarrow> PResult Valid [] None | _ \<Rightarrow> s p inp)"

definition z_lazy :: "(unit \<Rightarrow> schema) \<Rightarrow> schema" where
  "z_lazy getter p inp = getter () p inp"

subsection \<open>Arrays and tuples\<close>

text \<open>
  \<open>ParseStatus.mergeArray\<close>. Every element has been parsed before the merge, so all their
  issues are reported even when one of them aborts. An element's value is never
  \<open>undefined\<close> here (elements of a JSON array are values); \<open>JNull\<close> stands for it, as
  \<open>JSON.stringify\<close> prints it.
\<close>

definition mergeArray :: "pstatus \<Rightarrow> issue list \<Rightarrow> presult list \<Rightarrow> presult" where
  "mergeArray st pre rs =
     (let is = pre @ concat (map issues_of rs);
          st' = merge_status (st # map status rs)
      in if st' = Aborted then INVALID is
         else PResult st' is
           (Some (JArray (map (\<lambda>r. case parsed r of Some v \<Rightarrow> v | None \<Rightarrow> JNull) rs))))"

definition z_array_gen :: "nat option \<Rightarrow> schema \<Rightarrow> schema" where
  "z_array_gen minLength element p inp =
     (case inp of
        Some (JArray xs) \<Rightarrow>
          (let small =
                 (case minLength of
                    Some n \<Rightarrow>
                      if length xs < n then [Issue (too_small (of_nat n) True ''array'') p None]
                      else []
                  | None \<Rightarrow> [])
           in mergeArray (if small = [] then Valid else Dirty) small
                (map (\<lambda>(i, x). element (p @ [Idx i]) (Some x)) (enumerate 0 xs)))
      | _ \<Rightarrow> invalid_type_at p ''array'' inp)"

abbreviation z_array :: "schema \<Rightarrow> schema" where
  "z_array \<equiv> z_array_gen None"

abbreviation z_array_min :: "nat \<Rightarrow> schema \<Rightarrow> schema" where
  "z_array_min n \<equiv> z_array_gen (Some n)"

text \<open>
  A tuple shorter than its schema aborts at once; a longer one is dirty and its extra
  items are dropped from the value.
\<close>

definition z_tuple :: "schema list \<Rightarrow> schema" where
  "z_tuple items p inp =
     (case inp of
        Some (JArray xs) \<Rightarrow>
          (if length xs < length items
           then INVALID [Issue (too_small (of_nat (length items)) True ''array'') p None]
           else
             (let big =
                    (if length xs > length items
                     then [Issue (too_big (of_nat (length items)) True ''array'') p None]
                     else [])
              in mergeArray (if big = [] then Valid else Dirty) big
                   (map (\<lambda>(i, s, x). s (p @ [Idx i]) (Some x)) (enumerate 0 (zip items xs)))))
      | _ \<Rightarrow> invalid_type_at p ''array'' inp)"

subsection \<open>Objects\<close>

text \<open>
  An object schema parses every key of its shape, in the order of the shape, against
  the property of that name (\<open>undefined\<close> when absent), then reports the keys outside the
  shape when it is strict. The value it returns holds the keys of the shape that have a
  value, in the order of the shape; unknown keys are never copied.
  Objects are taken with distinct keys, as \<open>JSON.parse\<close> builds them.
\<close>

datatype unknownKeys = Strip | Strict

definition parse_field ::
  "path_elem list \<Rightarrow> (string \<times> json) list \<Rightarrow> string \<Rightarrow> schema \<Rightarrow> string \<times> presult" where
  "parse_field p kvs k s = (k, s (p @ [Key k]) (map_of kvs k))"

definition mergeObject ::
  "unknownKeys \<Rightarrow> path_elem list \<Rightarrow> (string \<times> json) list \<Rightarrow> (string \<times> presult) list \<Rightarrow> presult" where
  "mergeObject uk p kvs pairs =
     (let extraKeys = filter (\<lambda>k. k \<notin> set (map fst pairs)) (keys_of kvs);
          unrecognized =
            (if uk = Strict \<and> extraKeys \<noteq> [] then [Issue (unrecognized_keys extraKeys) p None]
             else []);
          is = concat (map (\<lambda>(k, r). issues_of r) pairs) @ unrecognized;
          st = merge_status
                 ((if unrecognized = [] then Valid else Dirty) # map (\<lambda>(k, r). status r) pairs)
      in if st = Aborted then INVALID is
         else PResult st is
           (Some (JObject (List.map_filter (\<lambda>(k, r). map_option (Pair k) (parsed r)) pairs))))"

definition z_object_with ::
  "unknownKeys \<Rightarrow> ((string \<times> json) list \<Rightarrow> path_elem list \<Rightarrow> (string \<times> presult) list) \<Rightarrow> schema" where
  "z_object_with uk fields p inp =
     (case inp of
        Some (JObject kvs) \<Rightarrow> mergeObject uk p kvs (fields kvs p)
      | _ \<Rightarrow> invalid_type_at p ''object'' inp)"

definition z_object :: "unknownKeys \<Rightarrow> (string \<times> schema) list \<Rightarrow> schema" where
  "z_object uk shape = z_object_with uk (\<lambda>kvs p. map (\<lambda>(k, s). parse_field p kvs k s) shape)"

text \<open>\<open>.partial()\<close> makes every key optional; \<open>.extend(...)\<close> overrides or appends keys.\<close>

definition partial :: "(string \<times> schema) list \<Rightarrow> (string \<times> schema) list" where
  "partial shape = map (\<lambda>(k, s). (k, z_optional s)) shape"

definition extend_shape :: "(string \<times> schema) list \<Rightarrow> (string \<times> schema) list \<Rightarrow> (string \<times> schema) list" where
  "extend_shape shape augmentation =
     map (\<lambda>(k, s). (k, case map_of augmentation k of Some s' \<Rightarrow> s' | None \<Rightarrow> s)) shape
     @ filter (\<lambda>(k, s). k \<notin> set (map fst shape)) augmentation"

text \<open>\<open>z.record(keyType, valueType)\<close>: every own key and its value are parsed.\<close>

definition z_record :: "schema \<Rightarrow> schema \<Rightarrow> schema" where
  "z_record keyType valueType p inp =
     (case inp of
        Some (JObject kvs) \<Rightarrow>
          (let pairs =
                 map (\<lambda>k. (k, keyType (p @ [Key k]) (Some (JString k)),
                               valueType (p @ [Key k]) (map_of kvs k))) (keys_of kvs);
               is = concat (map (\<lambda>(k, kr, vr). issues_of kr @ issues_of vr) pairs);
               st = merge_status (concat (map (\<lambda>(k, kr, vr). [status kr, status vr]) pairs))
           in if st = Aborted then INVALID is
              else PResult st is
                (Some (JObject (List.map_filter (\<lambda>(k, kr, vr). map_option (Pair k) (parsed vr)) pairs))))
      | _ \<Rightarrow> invalid_type_at p ''object'' inp)"

subsection \<open>Unions\<close>

text \<open>
  A union returns its first valid option; failing that, the first dirty option with
  that option's issues; failing that, one \<open>invalid_union\<close> issue that holds the issues of
  every option, and aborts.
\<close>

definition union_merge :: "path_elem list \<Rightarrow> presult list \<Rightarrow> presult" where
  "union_merge p rs =
     (case find (\<lambda>r. status r = Valid) rs of
        Some r \<Rightarrow> PResult Valid [] (parsed r)
      | None \<Rightarrow>
          (case find (\<lambda>r. status r = Dirty) rs of
             Some r \<Rightarrow> r
           | None \<Rightarrow>
               INVALID [Issue (invalid_union (filter (\<lambda>is. is \<noteq> []) (map issues_of rs))) p None]))"

definition z_union :: "schema list \<Rightarrow> schema" where
  "z_union options p inp = union_merge p (map (\<lambda>s. s p inp) options)"

definition z_or :: "schema \<Rightarrow> schema \<Rightarrow> schema" where
  "z_or a b = z_union [a, b]"

text \<open>
  A discriminated union picks the option whose literal matches the discriminator
  property; the options are listed with their literals.
\<close>

definition z_discriminatedUnion :: "string \<Rightarrow> (string \<times> schema) list \<Rightarrow> schema" where
  "z_discriminatedUnion discriminator options p inp =
     (case inp of
        Some (JObject kvs) \<Rightarrow>
          (case (case map_of kvs discriminator of
                   Some (JString t) \<Rightarrow> map_of options t
                 | _ \<Rightarrow> None) of
             Some s \<Rightarrow> s p inp
           | None \<Rightarrow>
               INVALID [Issue (invalid_union_discriminator (map fst options))
                          (p @ [Key discriminator]) None])
      | _ \<Rightarrow> invalid_type_at p ''object'' inp)"

subsection \<open>Refinements\<close>

text \<open>
  \<open>.refine(check, message)\<close> runs its check on the value of the inner schema unless that
  aborted, so it also runs on a dirty value. A failed check adds a \<open>custom\<close> issue at the
  path of the value, extended by the path given with the message, if any.
\<close>

definition z_refine ::
  "(json option \<Rightarrow> bool) \<Rightarrow> path_elem list \<Rightarrow> string \<Rightarrow> schema \<Rightarrow> schema" where
  "z_refine check rel msg s p inp =
     (let r = s p inp
      in if status r = Aborted then INVALID (issues_of r)
         else if check (parsed r) then r
         else PResult Dirty (issues_of r @ [Issue custom (p @ rel) (Some msg)]) (parsed r))"

text \<open>
  \<open>.superRefine(f)\<close>: \<open>f\<close> reports issues through \<open>ctx.addIssue\<close>, each with a path relative
  to the value and a \<open>fatal\<close> flag; a fatal issue aborts.
\<close>

definition z_superRefine :: "(json option \<Rightarrow> (bool \<times> issue) list) \<Rightarrow> schema \<Rightarrow> schema" where
  "z_superRefine f s p inp =
     (let r = s p inp
      in if status r = Aborted then INVALID (issues_of r)
         else
           (let added = f (parsed r);
                is = issues_of r @ map (\<lambda>(fatal, i). Issue (code i) (p @ path i) (message i)) added;
                st = merge_status
                       (status r # map (\<lambda>(fatal, i). if fatal then Aborted else Dirty) added)
            in if st = Aborted then INVALID is else PResult st is (parsed r)))"

section \<open>JSON.stringify\<close>

text \<open>
  \<open>JSON.stringify\<close> on a JSON value. Strings are quoted as ECMAScript's \<open>QuoteJSONString\<close>
  does. An integer is printed in decimal, as JavaScript prints it; any other number is
  printed as its fraction in lowest terms (only the equality of two texts is ever
  observed by the validator). Numbers are finite here: the infinite numbers that
  \<open>JSON.parse\<close> gives for a literal beyond the range of doubles, and that \<open>JSON.stringify\<close>
  prints as \<open>null\<close>, have no counterpart, so no theorem below rests on different values
  having different texts.
\<close>

definition digit_char :: "nat \<Rightarrow> char" where
  "digit_char n = ''0123456789abcdef'' ! n"

fun show_nat :: "nat \<Rightarrow> string" where
  "show_nat n = (if n < 10 then [digit_char n] else show_nat (n div 10) @ [digit_char (n mod 10)])"

declare show_nat.simps [simp del]

definition show_int :: "int \<Rightarrow> string" where
  "show_int i = (if i < 0 then CHR ''-'' # show_nat (nat (- i)) else show_nat (nat i))"

definition number_str :: "rat \<Rightarrow> string" where
  "number_str r =
     (case quotient_of r of (n, d) \<Rightarrow> if d = 1 then show_int n else show_int n @ ''/'' @ show_int d)"

definition quote_char :: "char \<Rightarrow> string" where
  "quote_char c =
     (if c = CHR 0x22 then [CHR 0x5C, CHR 0x22]
      else if c = CHR 0x5C then [CHR 0x5C, CHR 0x5C]
      else if c = CHR 0x08 then [CHR 0x5C, CHR ''b'']
      else if c = CHR 0x09 then [CHR 0x5C, CHR ''t'']
      else if c = CHR 0x0A then [CHR 0x5C, CHR ''n'']
      else if c = CHR 0x0C then [CHR 0x5C, CHR ''f'']
      else if c = CHR 0x0D then [CHR 0x5C, CHR ''r'']
      else if (of_char c :: nat) < 32
        then [CHR 0x5C, CHR ''u'', CHR ''0'', CHR ''0'',
              digit_char (of_char c div 16), digit_char (of_char c mod 16)]
      else [c])"

definition quote :: "string \<Rightarrow> string" where
  "quote s = CHR 0x22 # concat (map quote_char s) @ [CHR 0x22]"

fun join_commas :: "string list \<Rightarrow> string" where
  "join_commas [] = []"
| "join_commas [x] = x"
| "join_commas (x # y # ys) = x @ CHR '','' # join_commas (y # ys)"

fun stringify :: "json \<Rightarrow> string" where
  "stringify JNull = ''null''"
| "stringify (JBool b) = (if b then ''true'' else ''false'')"
| "stringify (JNumber n) = number_str n"
| "stringify (JString s) = quote s"
| "stringify (JArray xs) = CHR ''['' # join_commas (map stringify xs) @ '']''"
| "stringify (JObject kvs) =
     CHR ''{'' # join_commas (map (\<lambda>(k, v). quote k @ CHR '':'' # stringify v) kvs) @ ''}''"

section \<open>Helper validation functions\<close>

definition nonZero :: "rat \<Rightarrow> bool" where
  "nonZero num = (num \<noteq> 0)"

definition nonZero_msg :: string where
  "nonZero_msg =
     ''Number cannot be 0. If you want the value to be 0, simply leave the property undefined.''"

text \<open>\<open>for (const _key in obj) return true; return false;\<close>\<close>

fun nonEmpty :: "json \<Rightarrow> bool" where
  "nonEmpty (JObject kvs) = (kvs \<noteq> [])"
| "nonEmpty (JArray xs) = (xs \<noteq> [])"
| "nonEmpty (JString s) = (s \<noteq> [])"
| "nonEmpty j = False"

definition nonEmpty_msg :: string where
  "nonEmpty_msg = ''Object must not be empty.''"

text \<open>\<open>arr => new Set(arr.map(e => JSON.stringify(e))).size === arr.length\<close>\<close>

definition uniqueItems :: "json list \<Rightarrow> bool" where
  "uniqueItems arr = (card (set (map stringify arr)) = length arr)"

definition uniqueItems_msg :: string where
  "uniqueItems_msg = ''Items must be unique.''"

text \<open>
  \<open>.refine(...nonZero)\<close>, \<open>.refine(...nonEmpty)\<close> and \<open>.refine(...uniqueItems)\<close>. The schema
  refined is a number, an object or array, and an array schema respectively, so the
  value handed to the check has that type whenever the check runs.
\<close>

definition refine_nonZero :: "schema \<Rightarrow> schema" where
  "refine_nonZero =
     z_refine (\<lambda>v. case v of Some (JNumber n) \<Rightarrow> nonZero n | _ \<Rightarrow> True) [] nonZero_msg"

definition refine_nonEmpty :: "schema \<Rightarrow> schema" where
  "refine_nonEmpty =
     z_refine (\<lambda>v. case v of Some j \<Rightarrow> nonEmpty j | None \<Rightarrow> False) [] nonEmpty_msg"

definition refine_uniqueItems :: "schema \<Rightarrow> schema" where
  "refine_uniqueItems =
     z_refine (\<lambda>v. case v of Some (JArray arr) \<Rightarrow> uniqueItems arr | _ \<Rightarrow> False) [] uniqueItems_msg"

section \<open>The schemas of the source\<close>

definition JSONValue :: schema where
  "JSONValue =
     z_union [z_string [], z_number [], z_boolean, z_object Strip [], z_null, z_undefined]"

definition slug_checks :: "string_check list" where
  "slug_checks = [Regex slug_re ''String must be a valid slug.'']"

definition slug :: schema where
  "slug = z_string slug_checks"

definition rollOption :: schema where
  "rollOption = z_string [Regex rollOption_re ''String must be a valid roll option.'']"

subsection \<open>The predicate grammar\<close>

text \<open>
  \<open>predicate\<close> refers to itself through \<open>z.lazy\<close>. The recursion is well-founded because
  every recursive parse is of a property of the object parsed, or of an element of an
  array held in such a property. The congruence rules below tell the function package
  on which inputs a schema combinator calls its argument.
\<close>

lemma map_of_size:
  "map_of kvs k = Some v \<Longrightarrow> size v < Suc (size_list (size_prod (\<lambda>_. 0) size) kvs)"
  by (induction kvs) (auto split: if_splits)

lemma map_of_size_elem:
  "map_of kvs k = Some (JArray xs) \<Longrightarrow> x \<in> set xs \<Longrightarrow>
   size x < Suc (size_list (size_prod (\<lambda>_. 0) size) kvs)"
  using map_of_size [of kvs k "JArray xs"] size_list_estimation' [of x xs "size x" size]
  by simp

lemma z_object_with_cong [fundef_cong]:
  "\<lbrakk>uk = uk'; p = p'; inp = inp'; \<And>kvs. inp' = Some (JObject kvs) \<Longrightarrow> f kvs p' = f' kvs p'\<rbrakk>
   \<Longrightarrow> z_object_with uk f p inp = z_object_with uk' f' p' inp'"
  by (auto simp: z_object_with_def split: option.splits json.splits)

lemma parse_field_cong [fundef_cong]:
  "\<lbrakk>p = p'; kvs = kvs'; k = k'; \<And>q. s q (map_of kvs' k') = s' q (map_of kvs' k')\<rbrakk>
   \<Longrightarrow> parse_field p kvs k s = parse_field p' kvs' k' s'"
  by (simp add: parse_field_def)

lemma z_refine_cong [fundef_cong]:
  "\<lbrakk>p = p'; inp = inp'; s p' inp' = s' p' inp'\<rbrakk>
   \<Longrightarrow> z_refine c rel m s p inp = z_refine c rel m s' p' inp'"
  by (simp add: z_refine_def)

lemma refine_uniqueItems_cong [fundef_cong]:
  "\<lbrakk>p = p'; inp = inp'; s p' inp' = s' p' inp'\<rbrakk>
   \<Longrightarrow> refine_uniqueItems s p inp = refine_uniqueItems s' p' inp'"
  by (simp add: refine_uniqueItems_def z_refine_def)

lemma refine_nonEmpty_cong [fundef_cong]:
  "\<lbrakk>p = p'; inp = inp'; s p' inp' = s' p' inp'\<rbrakk>
   \<Longrightarrow> refine_nonEmpty s p inp = refine_nonEmpty s' p' inp'"
  by (simp add: refine_nonEmpty_def z_refine_def)

lemma z_lazy_cong [fundef_cong]:
  "\<lbrakk>p = p'; inp = inp'; g () p' inp' = g' () p' inp'\<rbrakk>
   \<Longrightarrow> z_lazy g p inp = z_lazy g' p' inp'"
  by (simp add: z_lazy_def)

lemma z_optional_cong [fundef_cong]:
  "\<lbrakk>p = p'; inp = inp'; inp' \<noteq> None \<Longrightarrow> s p' inp' = s' p' inp'\<rbrakk>
   \<Longrightarrow> z_optional s p inp = z_optional s' p' inp'"
  by (cases inp') (simp_all add: z_optional_def)

lemma map_enumerate_cong:
  "(\<And>x q. x \<in> set xs \<Longrightarrow> el q (Some x) = el' q (Some x)) \<Longrightarrow>
   map (\<lambda>(i, x). el (p @ [Idx i]) (Some x)) (enumerate n xs) =
   map (\<lambda>(i, x). el' (p @ [Idx i]) (Some x)) (enumerate n xs)"
  by (rule map_cong) (auto simp: in_set_enumerate_eq)

lemma z_array_gen_cong [fundef_cong]:
  "\<lbrakk>mn = mn'; p = p'; inp = inp';
    \<And>xs x q. inp' = Some (JArray xs) \<Longrightarrow> x \<in> set xs \<Longrightarrow> el q (Some x) = el' q (Some x)\<rbrakk>
   \<Longrightarrow> z_array_gen mn el p inp = z_array_gen mn' el' p' inp'"
proof -
  assume a: "mn = mn'" "p = p'" "inp = inp'"
    and b: "\<And>xs x q. inp' = Some (JArray xs) \<Longrightarrow> x \<in> set xs \<Longrightarrow> el q (Some x) = el' q (Some x)"
  show ?thesis
  proof (cases inp')
    case None
    with a show ?thesis by (simp add: z_array_gen_def)
  next
    case (Some j)
    show ?thesis
    proof (cases j)
      case (JArray xs)
      have "map (\<lambda>(i, x). el (p' @ [Idx i]) (Some x)) (enumerate 0 xs) =
            map (\<lambda>(i, x). el' (p' @ [Idx i]) (Some x)) (enumerate 0 xs)"
        by (rule map_enumerate_cong) (rule b, simp add: Some JArray)
      then show ?thesis by (simp only: a z_array_gen_def Some JArray option.case json.case)
    qed (use a Some in \<open>simp_all add: z_array_gen_def\<close>)
  qed
qed

text \<open>
  The comparison forms \<open>{eq|gt|gte|lt|lte: [rollOption, rollOption | number]}\<close> and the
  combinator forms \<open>{and|or|xor|nand|nor|iff: Predicate[]}\<close> of the source, one schema
  per key.
\<close>

definition comparison :: "string \<Rightarrow> schema" where
  "comparison k = z_object Strict [(k, z_tuple [rollOption, z_or rollOption (z_number [])])]"

text \<open>
  The union \<open>z.union([...])\<close> of the source is written applied to the input, as
  \<open>union_merge p [option\<^sub>1 p inp, ...]\<close>, and the objects that hold a recursive schema with
  \<open>z_object_with\<close>, the form that \<open>z_object\<close> abbreviates; \<open>predicate_unfold\<close> below states
  the definition in the source's form.
\<close>

function predicate :: schema where
  "predicate p inp =
     union_merge p
       [rollOption p inp,
        comparison ''eq'' p inp,
        comparison ''gt'' p inp,
        comparison ''gte'' p inp,
        comparison ''lt'' p inp,
        comparison ''lte'' p inp,
        z_object_with Strict (\<lambda>kvs p.
          [parse_field p kvs ''and''
             (z_lazy (\<lambda>_. refine_uniqueItems (z_array_min 1 predicate)))]) p inp,
        z_object_with Strict (\<lambda>kvs p.
          [parse_field p kvs ''or''
             (z_lazy (\<lambda>_. refine_uniqueItems (z_array_min 1 predicate)))]) p inp,
        z_object_with Strict (\<lambda>kvs p.
          [parse_field p kvs ''xor''
             (z_lazy (\<lambda>_. refine_uniqueItems (z_array_min 1 predicate)))]) p inp,
        z_object_with Strict (\<lambda>kvs p.
          [parse_field p kvs ''not'' (z_lazy (\<lambda>_. predicate))]) p inp,
        z_object_with Strict (\<lambda>kvs p.
          [parse_field p kvs ''nand''
             (z_lazy (\<lambda>_. refine_uniqueItems (z_array_min 1 predicate)))]) p inp,
        z_object_with Strict (\<lambda>kvs p.
          [parse_field p kvs ''nor''
             (z_lazy (\<lambda>_. refine_uniqueItems (z_array_min 1 predicate)))]) p inp,
        z_object_with Strict (\<lambda>kvs p.
          [parse_field p kvs ''if'' (z_lazy (\<lambda>_. predicate)),
           parse_field p kvs ''then'' (z_lazy (\<lambda>_. predicate))]) p inp,
        z_object_with Strict (\<lambda>kvs p.
          [parse_field p kvs ''iff''
             (z_lazy (\<lambda>_. refine_uniqueItems (z_array_min 1 predicate)))]) p inp]"
  by pat_completeness auto
termination
proof (relation "measure (\<lambda>(p, inp). case inp of None \<Rightarrow> 0 | Some j \<Rightarrow> size j)", goal_cases)
  case 1
  show ?case by simp
next
  case (2 p inp kvs q xs x qa)
  then show ?case using map_of_size_elem [of kvs "''and''" xs x] by simp
next
  case (3 p inp kvs q xs x qa)
  then show ?case using map_of_size_elem [of kvs "''or''" xs x] by simp
next
  case (4 p inp kvs q xs x qa)
  then show ?case using map_of_size_elem [of kvs "''xor''" xs x] by simp
next
  case (5 p inp kvs q)
  then show ?case using map_of_size [of kvs "''not''"] by (auto split: option.splits)
next
  case (6 p inp kvs q xs x qa)
  then show ?case using map_of_size_elem [of kvs "''nand''" xs x] by simp
next
  case (7 p inp kvs q xs x qa)
  then show ?case using map_of_size_elem [of kvs "''nor''" xs x] by simp
next
  case (8 p inp kvs q)
  then show ?case using map_of_size [of kvs "''if''"] by (auto split: option.splits)
next
  case (9 p inp kvs q)
  then show ?case using map_of_size [of kvs "''then''"] by (auto split: option.splits)
next
  case (10 p inp kvs q xs x qa)
  then show ?case using map_of_size_elem [of kvs "''iff''" xs x] by simp
qed

declare predicate.simps [simp del]

subsection \<open>Checks written inline in the source\<close>

text \<open>JavaScript's truthiness, and the read \<open>obj.k\<close> of a property of a parsed object.\<close>

fun truthy :: "json option \<Rightarrow> bool" where
  "truthy None = False"
| "truthy (Some JNull) = False"
| "truthy (Some (JBool b)) = b"
| "truthy (Some (JNumber n)) = (n \<noteq> 0)"
| "truthy (Some (JString s)) = (s \<noteq> [])"
| "truthy (Some (JArray xs)) = True"
| "truthy (Some (JObject kvs)) = True"

fun property :: "json option \<Rightarrow> string \<Rightarrow> json option" where
  "property (Some (JObject kvs)) k = map_of kvs k"
| "property v k = None"

text \<open>\<open>arr => arr[0] !== arr[1]\<close>, on the value of a pair of numbers.\<close>

fun range_differs :: "json option \<Rightarrow> bool" where
  "range_differs (Some (JArray (JNumber a # JNumber b # rest))) = (a \<noteq> b)"
| "range_differs v = True"

text \<open>\<open>a > b\<close> on two properties that hold numbers; a comparison with \<open>undefined\<close> is false.\<close>

fun js_greater :: "json option \<Rightarrow> json option \<Rightarrow> bool" where
  "js_greater (Some (JNumber a)) (Some (JNumber b)) = (a > b)"
| "js_greater a b = False"

subsection \<open>Primitive formats\<close>

definition hexColour :: schema where
  "hexColour = z_string [Regex hexColour_re ''String must be a valid hexadecimal colour-code.'']"

definition angle :: schema where
  "angle = refine_nonZero (z_number [Min (- 180) False, Max 180 True])"

definition filePath :: schema where
  "filePath =
     z_string [Regex filePath_re
       (''String must be a valid filepath. The following characters are unsafe for cross-platform filesystems: ''
        @ [CHR 0x22] @ '':<>?'' @ [CHR 0x5C] @ ''|'')]"

definition sequencerDBEntry :: schema where
  "sequencerDBEntry =
     z_string [Regex sequencerDBEntry_re ''String must be a valid Sequencer database entry.'']"

definition vector2 :: schema where
  "vector2 =
     refine_nonEmpty (z_object Strict
       [(''x'', z_optional (refine_nonZero (z_number []))),
        (''y'', z_optional (refine_nonZero (z_number [])))])"

subsection \<open>Offsets and sound\<close>

definition offset :: schema where
  "offset =
     z_refine (\<lambda>obj. truthy (property obj ''x'') \<or> truthy (property obj ''y'')) []
       ''At least one offset dimension (`x` or `y`) must be specified.''
       (refine_nonEmpty (z_object Strict
         [(''x'', z_optional
            (z_or (refine_nonZero (z_number []))
              (z_refine range_differs [] ''Offset range cannot be zero.''
                (z_tuple [z_number [], z_number []])))),
          (''y'', z_optional
            (z_or (refine_nonZero (z_number []))
              (z_refine range_differs [] ''Offset range cannot be zero.''
                (z_tuple [z_number [], z_number []])))),
          (''flipX'', z_optional (z_literal (JBool True))),
          (''flipY'', z_optional (z_literal (JBool True)))]))"

definition soundEffect :: schema where
  "soundEffect =
     z_object Strict
       [(''type'', z_string [MinLength 1 None]),
        (''intensity'', z_number [positive])]"

definition soundData :: schema where
  "soundData =
     z_object Strict
       [(''file'', z_or sequencerDBEntry filePath),
        (''waitUntilFinished'', z_optional (z_number [])),
        (''atLocation'', z_optional (z_object Strict
           [(''cacheLocation'', z_optional (z_literal (JBool True))),
            (''offset'', z_optional offset),
            (''randomOffset'', z_optional (z_number [])),
            (''gridUnits'', z_optional (z_literal (JBool True))),
            (''local'', z_optional (z_literal (JBool True)))])),
        (''radius'', z_optional (z_number [positive])),
        (''volume'', z_optional (z_number [positive])),
        (''duration'', z_optional (z_number [positive])),
        (''constrainedByWalls'', z_optional (z_literal (JBool True))),
        (''predicate'', z_optional (refine_uniqueItems (z_array_min 1 predicate))),
        (''default'', z_optional (z_literal (JBool True))),
        (''delay'', z_optional (refine_nonZero (z_number []))),
        (''muffledEffect'', z_optional soundEffect),
        (''baseEffect'', z_optional soundEffect)]"

definition soundConfig :: schema where
  "soundConfig = z_or soundData (refine_uniqueItems (z_array_min 1 soundData))"

subsection \<open>Preset options\<close>

definition presetOptions :: schema where
  "presetOptions =
     refine_nonEmpty (z_object Strict
       [(''attachTo'', z_or (z_literal (JBool True))
           (z_optional (refine_nonEmpty (z_object Strict
             [(''align'', z_optional (z_string [])),
              (''edge'', z_optional (z_string [])),
              (''bindVisibility'', z_optional (z_literal (JBool True))),
              (''bindAlpha'', z_optional (z_literal (JBool True))),
              (''bindScale'', z_optional (z_literal (JBool True))),
              (''bindElevation'', z_optional (z_literal (JBool True))),
              (''followRotation'', z_optional (z_literal (JBool True))),
              (''offset'', z_optional offset),
              (''randomOffset'', z_optional (z_number [])),
              (''gridUnits'', z_optional (z_literal (JBool True))),
              (''local'', z_optional (z_literal (JBool True)))])))),
        (''atLocation'', z_or (z_literal (JBool True))
           (z_optional (refine_nonEmpty (z_object Strict
             [(''cacheLocation'', z_optional (z_literal (JBool True))),
              (''offset'', z_optional offset),
              (''randomOffset'', z_optional (z_number [])),
              (''gridUnits'', z_optional (z_literal (JBool True))),
              (''local'', z_optional (z_literal (JBool True)))])))),
        (''bounce'', z_optional (refine_nonEmpty (z_object Strict
           [(''file'', z_or sequencerDBEntry filePath),
            (''sound'', z_optional soundConfig)]))),
        (''location'', z_optional (z_enum [''target'', ''source'', ''both''])),
        (''rotateTowards'', z_or (z_literal (JBool True))
           (z_optional (refine_nonEmpty (z_object Strict
             [(''rotationOffset'', z_optional (z_number [])),
              (''cacheLocation'', z_optional (z_literal (JBool True))),
              (''attachTo'', z_optional (z_literal (JBool True))),
              (''offset'', z_optional offset),
              (''randomOffset'', z_optional (z_number [])),
              (''gridUnits'', z_optional (z_literal (JBool True))),
              (''local'', z_optional (z_literal (JBool True)))])))),
        (''stretchTo'', z_optional (refine_nonEmpty (z_object Strict
           [(''cacheLocation'', z_optional (z_literal (JBool True))),
            (''attachTo'', z_optional (z_literal (JBool True))),
            (''onlyX'', z_optional (z_literal (JBool True))),
            (''tiling'', z_optional (z_literal (JBool True))),
            (''offset'', z_optional offset),
            (''randomOffset'', z_optional (z_number [])),
            (''gridUnits'', z_optional (z_literal (JBool True))),
            (''local'', z_optional (z_literal (JBool True))),
            (''requiresLineOfSight'', z_optional (z_literal (JBool True))),
            (''hideLineOfSight'', z_optional (z_literal (JBool True)))]))),
        (''templateAsOrigin'', z_optional (z_literal (JBool True))),
        (''targets'', z_optional (refine_nonEmpty (z_array (z_string []))))])"

subsection \<open>Easing and shapes\<close>

definition ease :: schema where
  "ease =
     z_enum
       [''easeInBack'', ''easeInBounce'', ''easeInCirc'', ''easeInCubic'', ''easeInElastic'',
        ''easeInExpo'', ''easeInOutBack'', ''easeInOutBounce'', ''easeInOutCirc'',
        ''easeInOutCubic'', ''easeInOutElastic'', ''easeInOutExpo'', ''easeInOutQuad'',
        ''easeInOutQuart'', ''easeInOutQuint'', ''easeInOutSine'', ''easeInQuad'',
        ''easeInQuart'', ''easeInQuint'', ''easeInSine'', ''easeOutBack'', ''easeOutBounce'',
        ''easeOutCirc'', ''easeOutCubic'', ''easeOutElastic'', ''easeOutExpo'', ''easeOutQuad'',
        ''easeOutQuart'', ''easeOutQuint'', ''easeOutSine'']"

text \<open>The shape of \<open>easingOptions\<close>, which the source also extends.\<close>

definition easingOptions_shape :: "(string \<times> schema) list" where
  "easingOptions_shape =
     [(''ease'', z_optional ease),
      (''delay'', z_optional (z_number [positive]))]"

definition easingOptions :: schema where
  "easingOptions = z_object Strict easingOptions_shape"

definition shape :: schema where
  "shape =
     refine_nonEmpty (z_object Strict
       [(''type'', z_enum [''polygon'', ''rectangle'', ''circle'', ''ellipse'', ''roundedRect'']),
        (''radius'', z_optional (z_number [positive])),
        (''width'', z_optional (z_number [positive])),
        (''height'', z_optional (z_number [positive])),
        (''points'', z_optional (refine_uniqueItems
           (z_array_min 1 (z_or (z_tuple [z_number [], z_number []]) vector2)))),
        (''gridUnits'', z_optional (z_literal (JBool True))),
        (''name'', z_optional (z_string [])),
        (''fillColor'', z_optional (z_or hexColour (z_number []))),
        (''fillAlpha'', z_optional (z_number [positive])),
        (''alpha'', z_optional (z_number [positive])),
        (''lineSize'', z_optional (z_number [positive])),
        (''lineColor'', z_optional (z_or hexColour (z_number []))),
        (''offset'', z_optional (z_object Strict
           [(''x'', z_optional (z_number [])),
            (''y'', z_optional (z_number [])),
            (''gridUnits'', z_optional (z_literal (JBool True)))])),
        (''isMask'', z_optional (z_literal (JBool True)))])"

subsection \<open>Effect options\<close>

text \<open>
  The \<open>filter\<close> property of \<open>effectOptions\<close>, a union discriminated on \<open>type\<close>. The source
  writes it inline; it is named here, as are the options of its \<open>Blur\<close> variant and their
  shape.
  \<open>.describe(...)\<close> only documents a schema and is left out.
\<close>

definition blurOptions_shape :: "(string \<times> schema) list" where
  "blurOptions_shape =
     [(''strength'', z_optional (z_number [positive])),
      (''blur'', z_optional (z_number [positive])),
      (''blurX'', z_optional (z_number [positive])),
      (''blurY'', z_optional (z_number [positive])),
      (''quality'', z_optional (z_number [IsInt, positive])),
      (''resolution'', z_optional (z_number [positive])),
      (''kernelSize'', z_optional (z_number [positive, IsInt]))]"

definition blurOptions :: schema where
  "blurOptions =
     z_refine
       (\<lambda>options. \<not> truthy (property options ''blur'')
          \<or> (\<not> truthy (property options ''blurX'') \<and> \<not> truthy (property options ''blurY'')))
       [Key ''blur'']
       ''`blur` cannot be used at the same time as `blurX` or `blurY`.''
       (refine_nonEmpty (z_object Strict blurOptions_shape))"

definition effect_filter :: schema where
  "effect_filter =
     z_discriminatedUnion ''type''
       [(''ColorMatrix'', z_object Strict
          [(''type'', z_literal (JString ''ColorMatrix'')),
           (''options'', refine_nonEmpty (z_object Strict
              [(''hue'', z_optional (refine_nonZero angle)),
               (''brightness'', z_optional (z_number [])),
               (''contrast'', z_optional (z_number [])),
               (''saturate'', z_optional (z_number []))]))]),
        (''Glow'', z_object Strict
          [(''type'', z_literal (JString ''Glow'')),
           (''options'', refine_nonEmpty (z_object Strict
              [(''distance'', z_optional (z_number [positive])),
               (''outerStrength'', z_optional (z_number [positive])),
               (''innerStrength'', z_optional (z_number [positive])),
               (''color'', z_optional hexColour),
               (''quality'', z_optional (z_number [Min 0 True, Max 1 True])),
               (''knockout'', z_optional (z_literal (JBool True)))]))]),
        (''Blur'', z_object Strict
          [(''type'', z_literal (JString ''Blur'')),
           (''options'', blurOptions)]),
        (''Noise'', z_object Strict
          [(''type'', z_literal (JString ''Noise'')),
           (''options'', z_optional (refine_nonEmpty (z_object Strict
              [(''noise'', z_optional (z_number [Min 0 False, Max 1 True])),
               (''seed'', z_optional (z_number []))])))]),
        (''Clip'', z_object Strict
          [(''type'', z_literal (JString ''Clip''))])]"

definition effectOptions :: schema where
  "effectOptions =
     refine_nonEmpty (z_object Strict
       [(''sound'', z_optional soundConfig),
        (''preset'', z_optional presetOptions),
        (''locally'', z_optional (z_literal (JBool True))),
        (''id'', z_optional (z_string (slug_checks @
           [MinLength 6 (Some ''Animation IDs should be reasonably unique.'')]))),
        (''name'', z_optional (z_string [MinLength 1 None])),
        (''syncGroup'', z_optional (z_string [])),
        (''randomRotation'', z_optional (z_literal (JBool True))),
        (''randomizeMirrorX'', z_optional (z_literal (JBool True))),
        (''randomizeMirrorY'', z_optional (z_literal (JBool True))),
        (''mirrorX'', z_optional (z_literal (JBool True))),
        (''mirrorY'', z_optional (z_literal (JBool True))),
        (''remove'', z_optional (z_or slug (refine_uniqueItems (z_array_min 1 slug)))),
        (''tieToDocuments'', z_optional (z_literal (JBool True))),
        (''belowTokens'', z_optional (z_literal (JBool True))),
        (''waitUntilFinished'', z_optional (refine_nonZero (z_number []))),
        (''zIndex'', z_optional (z_number [])),
        (''duration'', z_optional (z_number [positive])),
        (''tint'', z_optional hexColour),
        (''rotate'', z_optional angle),
        (''opacity'', z_optional (z_number [positive, Max 1 False])),
        (''mask'', z_optional (z_literal (JBool True))),
        (''fadeIn'', z_optional
           (z_or (refine_nonZero (z_number []))
             (z_object Strict
               (extend_shape easingOptions_shape [(''value'', refine_nonZero (z_number []))])))),
        (''fadeOut'', z_optional
           (z_or (refine_nonZero (z_number []))
             (z_object Strict
               (extend_shape easingOptions_shape [(''value'', refine_nonZero (z_number []))])))),
        (''wait'', z_optional
           (z_or (z_number [])
             (z_object Strict
               [(''min'', refine_nonZero (z_number [])),
                (''max'', z_optional (z_number []))]))),
        (''delay'', z_optional
           (z_or (z_number [])
             (z_object Strict
               [(''min'', refine_nonZero (z_number [])),
                (''max'', z_optional (z_number []))]))),
        (''size'', z_optional
           (z_or (z_number [])
             (z_object Strict
               [(''value'', z_number [positive]),
                (''gridUnits'', z_optional (z_literal (JBool True)))]))),
        (''spriteRotation'', z_optional angle),
        (''scale'', z_optional
           (z_or (z_number [])
             (z_object Strict
               [(''min'', z_or (z_number [])
                   (z_object Strip [(''x'', z_number []), (''y'', z_number [])])),
                (''max'', z_optional (z_number []))]))),
        (''scaleToObject'', z_optional
           (z_or (z_number [])
             (z_object Strict
               [(''value'', z_number [positive]),
                (''uniform'', z_optional (z_literal (JBool True))),
                (''considerTokenScale'', z_optional (z_literal (JBool True)))]))),
        (''spriteOffset'', z_optional
           (z_object Strict
             [(''offset'', offset),
              (''gridUnits'', z_optional (z_literal (JBool True))),
              (''local'', z_optional (z_literal (JBool True)))])),
        (''persist'', z_optional
           (z_or (z_literal (JBool True))
             (refine_nonEmpty (z_object Strict
               [(''value'', z_optional (z_literal (JBool True))),
                (''persistTokenPrototype'', z_optional (z_literal (JBool True)))])))),
        (''repeats'', z_optional
           (z_or (z_number [Min 1 True, IsInt])
             (z_refine
               (\<lambda>obj. if truthy (property obj ''delayMax'')
                      then js_greater (property obj ''delayMax'') (property obj ''delayMin'')
                      else True)
               [] ''`delayMax` must be greater than `delayMin`.''
               (z_refine
                 (\<lambda>obj. if truthy (property obj ''delayMax'')
                        then truthy (property obj ''delayMin'')
                          \<or> property obj ''delayMin'' = Some (JNumber 0)
                        else True)
                 [] ''`delayMin` is required if `delayMax` is defined.''
                 (z_object Strict
                   [(''count'', z_number [Min 1 True]),
                    (''delayMin'', z_optional (z_number [])),
                    (''delayMax'', z_optional (z_number [positive]))]))))),
        (''moveTowards'', z_optional
           (z_object Strict
             (extend_shape easingOptions_shape [(''target'', z_or vector2 (z_string []))]))),
        (''filter'', z_optional effect_filter),
        (''missed'', z_optional (z_literal (JBool True))),
        (''anchor'', z_optional vector2),
        (''template'', z_optional
           (z_object Strict
             [(''gridSize'', z_number [positive]),
              (''startPoint'', z_number []),
              (''endPoint'', z_number [])])),
        (''loopProperty'', z_optional (refine_uniqueItems (z_array_min 1
           (z_object Strict
             [(''target'', z_string []),
              (''property'', z_string []),
              (''options'', z_object Strict
                 [(''duration'', z_number []),
                  (''from'', z_optional (z_number [])),
                  (''to'', z_optional (z_number [])),
                  (''values'', z_optional (refine_uniqueItems (z_array_min 1 (z_number [])))),
                  (''loops'', z_optional (z_number [IsInt, positive])),
                  (''pingPong'', z_optional (z_literal (JBool True))),
                  (''delay'', z_optional (z_number [positive])),
                  (''ease'', z_optional ease),
                  (''fromEnd'', z_optional (z_literal (JBool True))),
                  (''gridUnits'', z_optional (z_literal (JBool True)))])])))),
        (''animateProperty'', z_optional (refine_uniqueItems (z_array_min 1
           (z_object Strict
             [(''target'', z_string []),
              (''property'', z_string []),
              (''options'', z_object Strict
                 [(''duration'', z_number []),
                  (''from'', z_number []),
                  (''to'', z_number []),
                  (''delay'', z_optional (z_number [])),
                  (''ease'', z_optional ease),
                  (''fromEnd'', z_optional (z_literal (JBool True))),
                  (''gridUnits'', z_optional (z_literal (JBool True)))])])))),
        (''shape'', z_optional (z_or shape (refine_uniqueItems (z_array_min 1 shape))))])"

subsection \<open>Animation objects\<close>

definition triggersList :: "string list" where
  "triggersList =
     [''attack-roll'', ''damage-roll'', ''place-template'', ''action'', ''toggle'', ''effect'',
      ''self-effect'', ''start-turn'', ''end-turn'', ''damage-taken'', ''saving-throw'',
      ''check'', ''skill-check'', ''flat-check'', ''initiative'', ''perception-check'',
      ''counteract-check'', ''modifiers-matter'']"

definition triggers :: schema where
  "triggers = z_enum triggersList"

definition presetList :: "string list" where
  "presetList = [''onToken'', ''ranged'', ''melee'', ''template'', ''sound'', ''macro'']"

definition presets :: schema where
  "presets = z_enum presetList"

definition referenceObject_shape :: "(string \<times> schema) list" where
  "referenceObject_shape =
     [(''overrides'', z_optional (refine_uniqueItems (z_array_min 1 rollOption))),
      (''trigger'', z_or triggers (z_array_min 1 triggers)),
      (''preset'', presets),
      (''file'', z_or (z_or sequencerDBEntry filePath) (z_array (z_or sequencerDBEntry filePath))),
      (''default'', z_optional (z_literal (JBool True))),
      (''predicate'', z_optional (refine_uniqueItems (z_array_min 1 predicate))),
      (''options'', z_optional effectOptions),
      (''reference'', z_optional rollOption)]"

definition referenceObject :: schema where
  "referenceObject = z_object Strict referenceObject_shape"

text \<open>
  \<open>referenceObject.partial().extend({contents: ...}).strict().refine(...nonEmpty)\<close>, recursive
  through \<open>contents\<close>. The key \<open>contents\<close> is new, so \<open>extend_shape\<close> appends it;
  \<open>animationObject_unfold\<close> below states the definition in the source's form.
\<close>

function animationObject :: schema where
  "animationObject p inp =
     refine_nonEmpty
       (z_object_with Strict (\<lambda>kvs p.
          map (\<lambda>(k, s). parse_field p kvs k s) (partial referenceObject_shape)
          @ [parse_field p kvs ''contents''
               (z_optional
                 (z_lazy (\<lambda>_. refine_uniqueItems (z_array_min 1 animationObject))))]))
       p inp"
  by pat_completeness auto
termination
proof (relation "measure (\<lambda>(p, inp). case inp of None \<Rightarrow> 0 | Some j \<Rightarrow> size j)", goal_cases)
  case 1
  show ?case by simp
next
  case (2 p inp kvs q xs x qa)
  then show ?case using map_of_size_elem [of kvs "''contents''" xs x] by simp
qed

declare animationObject.simps [simp del]

text \<open>
  \<open>superValidate\<close> is imported from \<open>./superValidateAnimations\<close>, a module outside the
  sources at hand, so it is a parameter: given the array it returns the issues it adds
  through \<open>ctx.addIssue\<close>, each with its \<open>fatal\<close> flag and a path relative to the array.
\<close>

type_synonym superValidate = "json list \<Rightarrow> (bool \<times> issue) list"

definition animationObjects :: "superValidate \<Rightarrow> schema" where
  "animationObjects superValidate =
     refine_uniqueItems
       (z_superRefine (\<lambda>arr. case arr of Some (JArray xs) \<Rightarrow> superValidate xs | _ \<Rightarrow> [])
         (z_array_min 1 animationObject))"

text \<open>Full-file animations schema (sans \<open>_tokenImages\<close>), used for the JSON-schema export only.\<close>

definition animations :: "superValidate \<Rightarrow> schema" where
  "animations superValidate = z_record rollOption (z_or rollOption (animationObjects superValidate))"

subsection \<open>Token images\<close>

definition tokenImages :: schema where
  "tokenImages =
     z_object Strip
       [(''_tokenImages'', refine_uniqueItems (z_array_min 1
          (z_object Strict
            [(''name'', z_string [MinLength 1 None]),
             (''requires'', z_string [MinLength 1 None]),
             (''uuid'', z_string [Regex uuid_re ''Must be a valid UUID.'']),
             (''rules'', refine_uniqueItems (z_array_min 1
                (z_or
                  (z_tuple
                    [slug, filePath, z_number [positive], z_optional filePath,
                     z_optional (z_number [positive])])
                  (z_object Strict
                    [(''key'', z_optional JSONValue),
                     (''label'', z_optional JSONValue),
                     (''slug'', z_optional JSONValue),
                     (''predicate'', z_optional JSONValue),
                     (''priority'', z_optional JSONValue),
                     (''ignored'', z_optional JSONValue),
                     (''requiresInvestment'', z_optional JSONValue),
                     (''requiresEquipped'', z_optional JSONValue),
                     (''removeUponCreate'', z_optional JSONValue),
                     (''value'', filePath),
                     (''scale'', z_optional (z_number [])),
                     (''tint'', z_optional (z_string [])),
                     (''alpha'', z_optional (z_number [])),
                     (''animation'', refine_nonEmpty (z_object Strict
                        [(''duration'', z_optional (z_number [positive])),
                         (''transition'', z_optional (z_string [MinLength 1 None])),
                         (''easing'', z_optional ease),
                         (''name'', z_optional (z_string [MinLength 1 None]))])),
                     (''ring'', z_optional (refine_nonEmpty (z_object Strict
                        [(''subject'', refine_nonEmpty (z_object Strict
                           [(''texture'', filePath),
                            (''scale'', z_optional (z_number []))])),
                         (''colors'', z_optional (refine_nonEmpty (z_object Strict
                           [(''background'', z_optional (z_string [])),
                            (''ring'', z_optional (z_string []))])))])))]))))])))]"

section \<open>The validation engine\<close>

text \<open>
  \<open>schema.safeParse(data)\<close> parses at the empty path. It succeeds when the status is valid
  and otherwise returns a \<open>ZodError\<close> holding the issues; Zod throws when a parse fails
  without having recorded an issue.
\<close>

datatype js_error = Error string

datatype safe_parse = ParseSuccess "json option" | ParseFailure "issue list"

definition safeParse :: "schema \<Rightarrow> json option \<Rightarrow> js_error + safe_parse" where
  "safeParse s d =
     (let r = s [] d
      in if status r = Valid then Inr (ParseSuccess (parsed r))
         else if issues_of r = [] then Inl (Error ''Validation failed but no issues detected.'')
         else Inr (ParseFailure (issues_of r)))"

text \<open>The result of \<open>validateAnimationData\<close>: \<open>{success: true}\<close> or \<open>{success: false, error}\<close>.\<close>

datatype validation = Success | Failure "issue list"

text \<open>\<open>{ ...issue, path: [key, ...issue.path] }\<close>\<close>

definition prepend_key :: "string \<Rightarrow> issue \<Rightarrow> issue" where
  "prepend_key key i = Issue (code i) (Key key # path i) (message i)"

text \<open>
  One iteration of \<open>for (const key in data)\<close>: the body of the loop, from the issues
  collected so far to the issues after it. An exception leaves the loop.
\<close>

definition validate_key ::
  "superValidate \<Rightarrow> (string \<times> json) list \<Rightarrow> string \<Rightarrow> issue list \<Rightarrow> js_error + issue list" where
  "validate_key superValidate data key issues =
     (if key = ''_tokenImages'' then
        (case safeParse tokenImages (Some (JObject data)) of
           Inl e \<Rightarrow> Inl e
         | Inr (ParseSuccess v) \<Rightarrow> Inr issues
         | Inr (ParseFailure errs) \<Rightarrow> Inr (issues @ errs))
      else
        (case safeParse rollOption (Some (JString key)) of
           Inl e \<Rightarrow> Inl e
         | Inr keyResult \<Rightarrow>
             (let issues' =
                    (case keyResult of
                       ParseSuccess v \<Rightarrow> issues
                     | ParseFailure errs \<Rightarrow>
                         issues @ [Issue (invalid_string ''regex'') [Key key]
                                     (Some ''Must be a valid roll option.'')])
              in case (case map_of data key of
                         Some (JString s) \<Rightarrow> safeParse rollOption (map_of data key)
                       | _ \<Rightarrow> safeParse (animationObjects superValidate) (map_of data key)) of
                   Inl e \<Rightarrow> Inl e
                 | Inr (ParseSuccess v) \<Rightarrow> Inr issues'
                 | Inr (ParseFailure errs) \<Rightarrow> Inr (issues' @ map (prepend_key key) errs))))"

fun validate_keys ::
  "superValidate \<Rightarrow> (string \<times> json) list \<Rightarrow> string list \<Rightarrow> issue list \<Rightarrow> js_error + issue list" where
  "validate_keys superValidate data [] issues = Inr issues"
| "validate_keys superValidate data (key # keys) issues =
     (case validate_key superValidate data key issues of
        Inl e \<Rightarrow> Inl e
      | Inr issues' \<Rightarrow> validate_keys superValidate data keys issues')"

text \<open>
  The own properties over which the loop runs. The guard before the loop lets only
  plain objects through.
\<close>

fun own_properties :: "json \<Rightarrow> (string \<times> json) list" where
  "own_properties (JObject kvs) = kvs"
| "own_properties j = []"

definition validateAnimationData :: "superValidate \<Rightarrow> json \<Rightarrow> js_error + validation" where
  "validateAnimationData superValidate data =
     (if typeof data \<noteq> ''object'' \<or> isArray data \<or> data = JNull then
        Inr (Failure
          [Issue
             (invalid_type ''object''
                (if strict_eq_bool data (isArray data) then ''array''
                 else if strict_eq_string data ''null'' then ''null''
                 else typeof data))
             [] (Some ''JSON must represent an object.'')])
      else
        (case validate_keys superValidate (own_properties data)
                (keys_of (own_properties data)) [] of
           Inl e \<Rightarrow> Inl e
         | Inr issues \<Rightarrow> if issues \<noteq> [] then Inr (Failure issues) else Inr Success))"

section \<open>The schema exporter\<close>

text \<open>
  \<open>zodToJsonSchema\<close> belongs to the library \<open>zod-to-json-schema\<close> and is a parameter: it
  maps a schema and the options to a JSON-schema document.
\<close>

record zodToJsonSchemaOptions =
  markdownDescription :: bool
  removeAdditionalStrategy :: string
  applyRegexFlags :: bool

definition getJSONSchema ::
  "(schema \<Rightarrow> zodToJsonSchemaOptions \<Rightarrow> 'doc) \<Rightarrow> superValidate \<Rightarrow> string \<Rightarrow> js_error + 'doc" where
  "getJSONSchema zodToJsonSchema superValidate schemaName =
     (let options =
            \<lparr>markdownDescription = True, removeAdditionalStrategy = ''strict'',
             applyRegexFlags = True\<rparr>
      in if schemaName = ''animations'' then Inr (zodToJsonSchema (animations superValidate) options)
         else if schemaName = ''tokenImages'' then Inr (zodToJsonSchema tokenImages options)
         else Inl (Error ''Unknown schema name''))"

section \<open>Deep value equality\<close>

text \<open>
  The equality that the specification calls deep value equality or structural equality:
  two arrays are equal when their elements are, in order; two objects when they have the
  same keys with equal values, in whatever order the keys stand; two primitives when they
  are the same.
\<close>

function deep_equal :: "json \<Rightarrow> json \<Rightarrow> bool" where
  "deep_equal (JArray xs) (JArray ys) = list_all2 deep_equal xs ys"
| "deep_equal (JObject kvs) (JObject kvs') =
     (\<forall>k \<in> set (map fst kvs @ map fst kvs').
        case (map_of kvs k, map_of kvs' k) of
          (Some v, Some v') \<Rightarrow> deep_equal v v'
        | (None, None) \<Rightarrow> True
        | _ \<Rightarrow> False)"
| "deep_equal JNull b = (b = JNull)"
| "deep_equal (JBool x) b = (b = JBool x)"
| "deep_equal (JNumber x) b = (b = JNumber x)"
| "deep_equal (JString x) b = (b = JString x)"
| "deep_equal (JArray xs) JNull = False"
| "deep_equal (JArray xs) (JBool y) = False"
| "deep_equal (JArray xs) (JNumber y) = False"
| "deep_equal (JArray xs) (JString y) = False"
| "deep_equal (JArray xs) (JObject y) = False"
| "deep_equal (JObject kvs) JNull = False"
| "deep_equal (JObject kvs) (JBool y) = False"
| "deep_equal (JObject kvs) (JNumber y) = False"
| "deep_equal (JObject kvs) (JString y) = False"
| "deep_equal (JObject kvs) (JArray y) = False"
  by pat_completeness auto
termination
proof (relation "measure (\<lambda>(a, b). size a)", goal_cases)
  case 1
  show ?case by simp
next
  case (2 xs ys x y)
  then show ?case using size_list_estimation' [of x xs "size x" size] by simp
next
  case (3 kvs kvs' k x y v v')
  then show ?case using map_of_size [of kvs k v] by simp
qed

section \<open>Characterising what a schema accepts\<close>

text \<open>
  Predicates in which the acceptance of a schema is stated. \<open>returns_input\<close> says that a
  schema hands back the value it read unless it aborts; it is used in proofs only.
  \<open>absent_or P\<close> holds of a property that is absent or a number satisfying \<open>P\<close>.
  \<open>blur_bounds\<close> says that the options of a \<open>Blur\<close> filter are a non-empty object of the
  known properties, each within its bound; \<open>blur_numbers\<close> that the known properties present
  are numbers; \<open>blur_combined\<close> that \<open>blur\<close> comes with \<open>blurX\<close> or \<open>blurY\<close>.
\<close>

definition returns_input :: "schema \<Rightarrow> bool" where
  "returns_input s \<longleftrightarrow> (\<forall>q v. status (s q v) \<noteq> Aborted \<longrightarrow> parsed (s q v) = v)"

definition absent_or :: "(rat \<Rightarrow> bool) \<Rightarrow> json option \<Rightarrow> bool" where
  "absent_or P v \<longleftrightarrow> (case v of None \<Rightarrow> True | Some (JNumber n) \<Rightarrow> P n | _ \<Rightarrow> False)"

definition blur_bounds :: "(string \<times> json) list \<Rightarrow> bool" where
  "blur_bounds kvs \<longleftrightarrow>
     kvs \<noteq> []
     \<and> set (keys_of kvs)
         \<subseteq> {''strength'', ''blur'', ''blurX'', ''blurY'', ''quality'', ''resolution'', ''kernelSize''}
     \<and> absent_or (\<lambda>n. 0 < n) (map_of kvs ''strength'')
     \<and> absent_or (\<lambda>n. 0 < n) (map_of kvs ''blur'')
     \<and> absent_or (\<lambda>n. 0 < n) (map_of kvs ''blurX'')
     \<and> absent_or (\<lambda>n. 0 < n) (map_of kvs ''blurY'')
     \<and> absent_or (\<lambda>n. isInteger n \<and> 0 < n) (map_of kvs ''quality'')
     \<and> absent_or (\<lambda>n. 0 < n) (map_of kvs ''resolution'')
     \<and> absent_or (\<lambda>n. 0 < n \<and> isInteger n) (map_of kvs ''kernelSize'')"

definition blur_message :: string where
  "blur_message = ''`blur` cannot be used at the same time as `blurX` or `blurY`.''"

definition blur_numbers :: "(string \<times> json) list \<Rightarrow> bool" where
  "blur_numbers kvs \<longleftrightarrow>
     list_all (\<lambda>k. absent_or (\<lambda>n. True) (map_of kvs k))
       [''strength'', ''blur'', ''blurX'', ''blurY'', ''quality'', ''resolution'', ''kernelSize'']"

definition blur_combined :: "(string \<times> json) list \<Rightarrow> bool" where
  "blur_combined kvs \<longleftrightarrow>
     map_of kvs ''blur'' \<noteq> None \<and> (map_of kvs ''blurX'' \<noteq> None \<or> map_of kvs ''blurY'' \<noteq> None)"

text \<open>
  The value that the \<open>predicate\<close> schema returns for a predicate it accepts: Zod rebuilds
  every object with the keys of the schema that accepted it, in the order of that schema,
  so an \<open>{if, then}\<close> object comes out with \<open>if\<close> first. \<open>predicate_keys\<close> are the keys of the
  object forms of a predicate in the order of the source; \<open>comparison_keys\<close> and
  \<open>combinator_keys\<close> are those that take a pair and those that take an array of predicates.
\<close>

definition predicate_keys :: "string list" where
  "predicate_keys =
     [''eq'', ''gt'', ''gte'', ''lt'', ''lte'', ''and'', ''or'', ''xor'', ''not'', ''nand'',
      ''nor'', ''if'', ''then'', ''iff'']"

function predicate_value :: "json \<Rightarrow> json" where
  "predicate_value (JArray xs) = JArray (map predicate_value xs)"
| "predicate_value (JObject kvs) =
     JObject (List.map_filter (\<lambda>k. map_option (\<lambda>v. (k, predicate_value v)) (map_of kvs k))
                predicate_keys)"
| "predicate_value JNull = JNull"
| "predicate_value (JBool b) = JBool b"
| "predicate_value (JNumber n) = JNumber n"
| "predicate_value (JString s) = JString s"
  by pat_completeness auto
termination
proof (relation "measure size", goal_cases)
  case 1
  show ?case by simp
next
  case (2 xs x)
  then show ?case using size_list_estimation' [of x xs "size x" size] by simp
next
  case (3 kvs k v)
  then show ?case using map_of_size [of kvs k v] by simp
qed

definition comparison_keys :: "string list" where
  "comparison_keys = [''eq'', ''gt'', ''gte'', ''lt'', ''lte'']"

definition combinator_keys :: "string list" where
  "combinator_keys = [''and'', ''or'', ''xor'', ''nand'', ''nor'', ''iff'']"

text \<open>
  The parts of the \<open>tokenImages\<close> schema, which the source writes inline, named from the
  inside out; \<open>tokenImages_pieces\<close> below states that they make up the schema.
\<close>

definition tokenImage_animation :: schema where
  "tokenImage_animation =
     refine_nonEmpty (z_object Strict
       [(''duration'', z_optional (z_number [positive])),
        (''transition'', z_optional (z_string [MinLength 1 None])),
        (''easing'', z_optional ease),
        (''name'', z_optional (z_string [MinLength 1 None]))])"

definition tokenImage_subject :: schema where
  "tokenImage_subject =
     refine_nonEmpty (z_object Strict
       [(''texture'', filePath),
        (''scale'', z_optional (z_number []))])"

definition tokenImage_colors :: schema where
  "tokenImage_colors =
     refine_nonEmpty (z_object Strict
       [(''background'', z_optional (z_string [])),
        (''ring'', z_optional (z_string []))])"

definition tokenImage_ring :: schema where
  "tokenImage_ring =
     refine_nonEmpty (z_object Strict
       [(''subject'', tokenImage_subject),
        (''colors'', z_optional tokenImage_colors)])"

definition tokenImage_rule_shape :: "(string \<times> schema) list" where
  "tokenImage_rule_shape =
     [(''key'', z_optional JSONValue),
      (''label'', z_optional JSONValue),
      (''slug'', z_optional JSONValue),
      (''predicate'', z_optional JSONValue),
      (''priority'', z_optional JSONValue),
      (''ignored'', z_optional JSONValue),
      (''requiresInvestment'', z_optional JSONValue),
      (''requiresEquipped'', z_optional JSONValue),
      (''removeUponCreate'', z_optional JSONValue),
      (''value'', filePath),
      (''scale'', z_optional (z_number [])),
      (''tint'', z_optional (z_string [])),
      (''alpha'', z_optional (z_number [])),
      (''animation'', tokenImage_animation),
      (''ring'', z_optional tokenImage_ring)]"

definition tokenImage_rule :: schema where
  "tokenImage_rule =
     z_or
       (z_tuple
         [slug, filePath, z_number [positive], z_optional filePath,
          z_optional (z_number [positive])])
       (z_object Strict tokenImage_rule_shape)"

definition tokenImage_entry :: schema where
  "tokenImage_entry =
     z_object Strict
       [(''name'', z_string [MinLength 1 None]),
        (''requires'', z_string [MinLength 1 None]),
        (''uuid'', z_string [Regex uuid_re ''Must be a valid UUID.'']),
        (''rules'', refine_uniqueItems (z_array_min 1 tokenImage_rule))]"

text \<open>
  What it means for a token-image entry to hold no unknown key at the levels of the entry,
  of a rule object, of its \<open>animation\<close> and \<open>ring\<close> and of the \<open>subject\<close> and \<open>colors\<close> of the
  ring. \<open>known_keys ks v\<close> holds when \<open>v\<close> is an object whose keys are among \<open>ks\<close>. A rule
  written as a tuple has no keys.
\<close>

definition known_keys :: "string list \<Rightarrow> json option \<Rightarrow> bool" where
  "known_keys ks v =
     (case v of Some (JObject kvs) \<Rightarrow> set (keys_of kvs) \<subseteq> set ks | _ \<Rightarrow> False)"

definition closed_ring :: "json option \<Rightarrow> bool" where
  "closed_ring v =
     (case v of
        Some (JObject kvs) \<Rightarrow>
          set (keys_of kvs) \<subseteq> set [''subject'', ''colors'']
          \<and> known_keys [''texture'', ''scale''] (map_of kvs ''subject'')
          \<and> (map_of kvs ''colors'' = None
               \<or> known_keys [''background'', ''ring''] (map_of kvs ''colors''))
      | _ \<Rightarrow> False)"

definition closed_rule :: "json \<Rightarrow> bool" where
  "closed_rule r =
     (case r of
        JArray items \<Rightarrow> True
      | JObject kvs \<Rightarrow>
          set (keys_of kvs)
            \<subseteq> set [''key'', ''label'', ''slug'', ''predicate'', ''priority'', ''ignored'',
                    ''requiresInvestment'', ''requiresEquipped'', ''removeUponCreate'', ''value'',
                    ''scale'', ''tint'', ''alpha'', ''animation'', ''ring'']
          \<and> known_keys [''duration'', ''transition'', ''easing'', ''name'']
                (map_of kvs ''animation'')
          \<and> (map_of kvs ''ring'' = None \<or> closed_ring (map_of kvs ''ring''))
      | _ \<Rightarrow> False)"

definition closed_entry :: "json \<Rightarrow> bool" where
  "closed_entry e =
     (case e of
        JObject kvs \<Rightarrow>
          set (keys_of kvs) \<subseteq> set [''name'', ''requires'', ''uuid'', ''rules'']
          \<and> (case map_of kvs ''rules'' of
                Some (JArray rules) \<Rightarrow> rules \<noteq> [] \<and> list_all closed_rule rules
              | _ \<Rightarrow> False)
      | _ \<Rightarrow> False)"

text \<open>
  The items of \<open>loopProperty\<close> and of \<open>animateProperty\<close>, which the source writes inline in
  \<open>effectOptions\<close>, and the list of the schemas of the items of the arrays that the source
  refines with \<open>uniqueItems\<close> (the array of animation objects, refined after \<open>superValidate\<close>,
  apart).
\<close>

definition loopProperty_item :: schema where
  "loopProperty_item =
     z_object Strict
       [(''target'', z_string []),
        (''property'', z_string []),
        (''options'', z_object Strict
           [(''duration'', z_number []),
            (''from'', z_optional (z_number [])),
            (''to'', z_optional (z_number [])),
            (''values'', z_optional (refine_uniqueItems (z_array_min 1 (z_number [])))),
            (''loops'', z_optional (z_number [IsInt, positive])),
            (''pingPong'', z_optional (z_literal (JBool True))),
            (''delay'', z_optional (z_number [positive])),
            (''ease'', z_optional ease),
            (''fromEnd'', z_optional (z_literal (JBool True))),
            (''gridUnits'', z_optional (z_literal (JBool True)))])]"

definition animateProperty_item :: schema where
  "animateProperty_item =
     z_object Strict
       [(''target'', z_string []),
        (''property'', z_string []),
        (''options'', z_object Strict
           [(''duration'', z_number []),
            (''from'', z_number []),
            (''to'', z_number []),
            (''delay'', z_optional (z_number [])),
            (''ease'', z_optional ease),
            (''fromEnd'', z_optional (z_literal (JBool True))),
            (''gridUnits'', z_optional (z_literal (JBool True)))])]"

definition unique_item_schemas :: "schema list" where
  "unique_item_schemas =
     [rollOption, slug, z_number [], predicate, soundData,
      z_or (z_tuple [z_number [], z_number []]) vector2, shape, loopProperty_item,
      animateProperty_item, animationObject, tokenImage_rule, tokenImage_entry]"

section \<open>Properties of the schema combinators\<close>

text \<open>
  Two results are the \<open>same\<close> when they agree on status and value; a result is \<open>sound\<close>
  when it is valid or carries an issue. A schema is well-behaved at an input when its
  status and value there do not depend on the path and every result is sound: then
  \<open>safeParse\<close> never throws on that input.
\<close>

definition same :: "presult \<Rightarrow> presult \<Rightarrow> bool" where
  "same r r' \<longleftrightarrow> status r = status r' \<and> parsed r = parsed r'"

definition sound :: "presult \<Rightarrow> bool" where
  "sound r \<longleftrightarrow> (status r = Valid \<or> issues_of r \<noteq> [])"

definition wb :: "schema \<Rightarrow> json option \<Rightarrow> bool" where
  "wb s inp \<longleftrightarrow> (\<forall>p q. same (s p inp) (s q inp)) \<and> (\<forall>p. sound (s p inp))"

lemma wbI: "(\<And>p q. same (s p inp) (s q inp)) \<Longrightarrow> (\<And>p. sound (s p inp)) \<Longrightarrow> wb s inp"
  by (simp add: wb_def)

lemma wb_same: "wb s inp \<Longrightarrow> same (s p inp) (s q inp)"
  by (simp add: wb_def)

lemma wb_sound: "wb s inp \<Longrightarrow> sound (s p inp)"
  by (simp add: wb_def)

lemma same_refl [simp]: "same r r"
  by (simp add: same_def)

lemma same_INVALID [simp]: "same (INVALID is) (INVALID is')"
  by (simp add: same_def INVALID_def)

lemma sound_INVALID [simp]: "sound (INVALID is) \<longleftrightarrow> is \<noteq> []"
  by (simp add: sound_def INVALID_def)

lemma status_INVALID [simp]: "status (INVALID is) = Aborted"
  and issues_of_INVALID [simp]: "issues_of (INVALID is) = is"
  and parsed_INVALID [simp]: "parsed (INVALID is) = None"
  by (simp_all add: INVALID_def)

lemma invalid_type_at_simps [simp]:
  "status (invalid_type_at p e inp) = Aborted"
  "issues_of (invalid_type_at p e inp) = [Issue (invalid_type e (getParsedType inp)) p None]"
  "parsed (invalid_type_at p e inp) = None"
  by (simp_all add: invalid_type_at_def)

lemma wb_invalid_type_at: "wb (\<lambda>p inp. invalid_type_at p e inp) inp"
  by (simp add: wb_def same_def sound_def)

subsection \<open>merge_status\<close>

lemma merge_status_Valid: "merge_status ss = Valid \<longleftrightarrow> (\<forall>s \<in> set ss. s = Valid)"
  by (auto simp: merge_status_def) (metis pstatus.exhaust)

lemma merge_status_Aborted: "merge_status ss = Aborted \<longleftrightarrow> Aborted \<in> set ss"
  by (auto simp: merge_status_def)

lemma merge_status_cong: "set ss = set ss' \<Longrightarrow> merge_status ss = merge_status ss'"
  by (simp add: merge_status_def)

subsection \<open>Strings and numbers\<close>

lemma string_check_issues_path:
  "string_check_issues p s c = [] \<longleftrightarrow> string_check_issues q s c = []"
  by (cases c) auto

lemma string_checks_path:
  "concat (map (string_check_issues p s) cs) = [] \<longleftrightarrow> concat (map (string_check_issues q s) cs) = []"
  using string_check_issues_path [of p s _ q] by auto

lemma wb_z_string: "wb (z_string cs) inp"
proof (rule wbI)
  fix p q
  show "same (z_string cs p inp) (z_string cs q inp)"
    using string_checks_path [of p _ cs q]
    by (auto simp: z_string_def same_def Let_def split: option.splits json.splits)
  show "sound (z_string cs p inp)"
    by (auto simp: z_string_def sound_def Let_def split: option.splits json.splits)
qed

lemma number_check_issues_path:
  "number_check_issues p n c = [] \<longleftrightarrow> number_check_issues q n c = []"
  by (cases c) auto

lemma number_checks_path:
  "concat (map (number_check_issues p n) cs) = [] \<longleftrightarrow> concat (map (number_check_issues q n) cs) = []"
  using number_check_issues_path [of p n _ q] by auto

lemma wb_z_number: "wb (z_number cs) inp"
proof (rule wbI)
  fix p q
  show "same (z_number cs p inp) (z_number cs q inp)"
    using number_checks_path [of p _ cs q]
    by (auto simp: z_number_def same_def Let_def split: option.splits json.splits)
  show "sound (z_number cs p inp)"
    by (auto simp: z_number_def sound_def Let_def split: option.splits json.splits)
qed

lemma wb_z_boolean: "wb z_boolean inp"
  by (auto simp: wb_def z_boolean_def same_def sound_def split: option.splits json.splits)

lemma wb_z_null: "wb z_null inp"
  by (auto simp: wb_def z_null_def same_def sound_def split: option.splits json.splits)

lemma wb_z_undefined: "wb z_undefined inp"
  by (auto simp: wb_def z_undefined_def same_def sound_def split: option.splits json.splits)

lemma wb_z_literal: "wb (z_literal v) inp"
  by (auto simp: wb_def z_literal_def same_def sound_def)

lemma wb_z_enum: "wb (z_enum opts) inp"
  by (auto simp: wb_def z_enum_def same_def sound_def split: option.splits json.splits)

lemma wb_z_optional: "(inp \<noteq> None \<Longrightarrow> wb s inp) \<Longrightarrow> wb (z_optional s) inp"
  by (cases inp) (auto simp: wb_def z_optional_def same_def sound_def)

lemma wb_z_lazy: "wb (g ()) inp \<Longrightarrow> wb (z_lazy g) inp"
  by (simp add: wb_def z_lazy_def)

subsection \<open>Refinements\<close>

lemma wb_z_refine: "wb s inp \<Longrightarrow> wb (z_refine c rel m s) inp"
proof (rule wbI)
  fix p q
  assume w: "wb s inp"
  from wb_same [OF w, of p q] show "same (z_refine c rel m s p inp) (z_refine c rel m s q inp)"
    by (auto simp: z_refine_def same_def Let_def)
  from wb_sound [OF w, of p] show "sound (z_refine c rel m s p inp)"
    by (auto simp: z_refine_def sound_def Let_def)
qed

lemma wb_refine_nonZero: "wb s inp \<Longrightarrow> wb (refine_nonZero s) inp"
  by (simp add: refine_nonZero_def wb_z_refine)

lemma wb_refine_nonEmpty: "wb s inp \<Longrightarrow> wb (refine_nonEmpty s) inp"
  by (simp add: refine_nonEmpty_def wb_z_refine)

lemma wb_refine_uniqueItems: "wb s inp \<Longrightarrow> wb (refine_uniqueItems s) inp"
  by (simp add: refine_uniqueItems_def wb_z_refine)

lemma wb_z_superRefine: "wb s inp \<Longrightarrow> wb (z_superRefine f s) inp"
proof (rule wbI)
  fix p q
  assume w: "wb s inp"
  from wb_same [OF w, of p q] show "same (z_superRefine f s p inp) (z_superRefine f s q inp)"
    by (auto simp: z_superRefine_def same_def Let_def merge_status_def)
  from wb_sound [OF w, of p] show "sound (z_superRefine f s p inp)"
    by (auto simp: z_superRefine_def sound_def Let_def merge_status_Valid merge_status_Aborted)
qed

subsection \<open>Arrays\<close>

abbreviation elem_of :: "presult \<Rightarrow> json" where
  "elem_of r \<equiv> (case parsed r of Some v \<Rightarrow> v | None \<Rightarrow> JNull)"

lemma status_mergeArray [simp]:
  "status (mergeArray st pre rs) = merge_status (st # map status rs)"
  by (simp add: mergeArray_def Let_def)

lemma issues_of_mergeArray [simp]:
  "issues_of (mergeArray st pre rs) = pre @ concat (map issues_of rs)"
  by (simp add: mergeArray_def Let_def)

lemma parsed_mergeArray:
  "parsed (mergeArray st pre rs) =
     (if merge_status (st # map status rs) = Aborted then None
      else Some (JArray (map elem_of rs)))"
  by (simp add: mergeArray_def Let_def)

lemma list_all2_same_maps:
  "list_all2 same rs rs' \<Longrightarrow> map status rs = map status rs' \<and> map parsed rs = map parsed rs'"
  by (induction rule: list_all2_induct) (auto simp: same_def)

lemma list_all2_same_map:
  "(\<And>y. y \<in> set ys \<Longrightarrow> same (f y) (g y)) \<Longrightarrow> list_all2 same (map f ys) (map g ys)"
  by (induction ys) auto

lemma enumerate_snd_mem: "(i, x) \<in> set (enumerate n xs) \<Longrightarrow> x \<in> set xs"
  by (auto simp: in_set_enumerate_eq)

lemma same_mergeArray:
  assumes "list_all2 same rs rs'"
  shows "same (mergeArray st pre rs) (mergeArray st pre' rs')"
proof -
  from list_all2_same_maps [OF assms]
  have s: "map status rs = map status rs'" and v: "map parsed rs = map parsed rs'" by auto
  have "\<And>xs. map elem_of xs = map (\<lambda>v. case v of Some v \<Rightarrow> v | None \<Rightarrow> JNull) (map parsed xs)"
    by simp
  with v have "map elem_of rs = map elem_of rs'" by metis
  with s show ?thesis by (simp add: same_def parsed_mergeArray)
qed

lemma sound_mergeArray:
  assumes "st = Valid \<or> pre \<noteq> []" and "\<And>r. r \<in> set rs \<Longrightarrow> sound r"
  shows "sound (mergeArray st pre rs)"
  using assms by (auto simp: sound_def merge_status_Valid)

lemma z_array_gen_array:
  "z_array_gen mn el p (Some (JArray xs)) =
     mergeArray (if (case mn of Some n \<Rightarrow> length xs < n | None \<Rightarrow> False) then Dirty else Valid)
       (case mn of
          Some n \<Rightarrow> if length xs < n then [Issue (too_small (of_nat n) True ''array'') p None] else []
        | None \<Rightarrow> [])
       (map (\<lambda>(i, x). el (p @ [Idx i]) (Some x)) (enumerate 0 xs))"
  by (simp add: z_array_gen_def Let_def split: option.splits)

lemma z_array_gen_other:
  "(\<And>xs. inp \<noteq> Some (JArray xs)) \<Longrightarrow> z_array_gen mn el p inp = invalid_type_at p ''array'' inp"
  by (auto simp: z_array_gen_def split: option.splits json.splits)

lemma wb_z_array_gen:
  assumes "\<And>xs x. inp = Some (JArray xs) \<Longrightarrow> x \<in> set xs \<Longrightarrow> wb el (Some x)"
  shows "wb (z_array_gen mn el) inp"
proof (cases "\<exists>xs. inp = Some (JArray xs)")
  case False
  then show ?thesis
    by (simp add: z_array_gen_other wb_def same_def sound_def)
next
  case True
  then obtain xs where inp: "inp = Some (JArray xs)" by blast
  have el: "\<And>x. x \<in> set xs \<Longrightarrow> wb el (Some x)" using assms inp by blast
  show ?thesis
  proof (rule wbI)
    fix p q
    have "list_all2 same (map (\<lambda>(i, x). el (p @ [Idx i]) (Some x)) (enumerate 0 xs))
                         (map (\<lambda>(i, x). el (q @ [Idx i]) (Some x)) (enumerate 0 xs))"
    proof (rule list_all2_same_map)
      fix y assume "y \<in> set (enumerate 0 xs)"
      then have "wb el (Some (snd y))" using enumerate_snd_mem [of "fst y" "snd y" 0 xs] el by simp
      then show "same ((\<lambda>(i, x). el (p @ [Idx i]) (Some x)) y) ((\<lambda>(i, x). el (q @ [Idx i]) (Some x)) y)"
        by (simp add: case_prod_beta wb_same)
    qed
    from same_mergeArray [OF this]
    show "same (z_array_gen mn el p inp) (z_array_gen mn el q inp)"
      unfolding inp z_array_gen_array .
    have "\<And>r. r \<in> set (map (\<lambda>(i, x). el (p @ [Idx i]) (Some x)) (enumerate 0 xs)) \<Longrightarrow> sound r"
    proof -
      fix r assume "r \<in> set (map (\<lambda>(i, x). el (p @ [Idx i]) (Some x)) (enumerate 0 xs))"
      then obtain i x where m: "(i, x) \<in> set (enumerate 0 xs)" and r: "r = el (p @ [Idx i]) (Some x)"
        by auto
      from m have "x \<in> set xs" by (rule enumerate_snd_mem)
      then have "wb el (Some x)" by (rule el)
      then show "sound r" unfolding r by (rule wb_sound)
    qed
    then show "sound (z_array_gen mn el p inp)"
      unfolding inp z_array_gen_array
      by (intro sound_mergeArray) (simp_all split: option.splits)
  qed
qed

lemma z_tuple_array:
  "z_tuple items p (Some (JArray xs)) =
     (if length xs < length items
      then INVALID [Issue (too_small (of_nat (length items)) True ''array'') p None]
      else mergeArray (if length xs > length items then Dirty else Valid)
             (if length xs > length items
              then [Issue (too_big (of_nat (length items)) True ''array'') p None] else [])
             (map (\<lambda>(i, s, x). s (p @ [Idx i]) (Some x)) (enumerate 0 (zip items xs))))"
  by (simp add: z_tuple_def Let_def)

lemma z_tuple_other:
  "(\<And>xs. inp \<noteq> Some (JArray xs)) \<Longrightarrow> z_tuple items p inp = invalid_type_at p ''array'' inp"
  by (auto simp: z_tuple_def split: option.splits json.splits)

lemma enumerate_zip_mem: "(i, s, x) \<in> set (enumerate n (zip items xs)) \<Longrightarrow> s \<in> set items"
  by (auto dest!: enumerate_snd_mem set_zip_leftD)

lemma wb_z_tuple:
  assumes "\<And>s v. s \<in> set items \<Longrightarrow> wb s v"
  shows "wb (z_tuple items) inp"
proof (cases "\<exists>xs. inp = Some (JArray xs)")
  case False
  then show ?thesis
    by (simp add: z_tuple_other wb_def same_def sound_def)
next
  case True
  then obtain xs where inp: "inp = Some (JArray xs)" by blast
  show ?thesis
  proof (rule wbI)
    fix p q
    have "list_all2 same (map (\<lambda>(i, s, x). s (p @ [Idx i]) (Some x)) (enumerate 0 (zip items xs)))
                         (map (\<lambda>(i, s, x). s (q @ [Idx i]) (Some x)) (enumerate 0 (zip items xs)))"
    proof (rule list_all2_same_map)
      fix y assume "y \<in> set (enumerate 0 (zip items xs))"
      then have "fst (snd y) \<in> set items"
        using enumerate_zip_mem [of "fst y" "fst (snd y)" "snd (snd y)" 0 items xs] by simp
      then have "wb (fst (snd y)) (Some (snd (snd y)))" by (rule assms)
      then show "same ((\<lambda>(i, s, x). s (p @ [Idx i]) (Some x)) y) ((\<lambda>(i, s, x). s (q @ [Idx i]) (Some x)) y)"
        by (simp add: case_prod_beta wb_same)
    qed
    from same_mergeArray [OF this]
    show "same (z_tuple items p inp) (z_tuple items q inp)"
      unfolding inp z_tuple_array by (simp del: status_mergeArray)
    have "\<And>r. r \<in> set (map (\<lambda>(i, s, x). s (p @ [Idx i]) (Some x)) (enumerate 0 (zip items xs))) \<Longrightarrow> sound r"
    proof -
      fix r assume "r \<in> set (map (\<lambda>(i, s, x). s (p @ [Idx i]) (Some x)) (enumerate 0 (zip items xs)))"
      then obtain i s x where m: "(i, s, x) \<in> set (enumerate 0 (zip items xs))"
        and r: "r = s (p @ [Idx i]) (Some x)"
        by auto
      from m have "s \<in> set items" by (rule enumerate_zip_mem)
      then have "wb s (Some x)" by (rule assms)
      then show "sound r" unfolding r by (rule wb_sound)
    qed
    then have "\<And>st pre. st = Valid \<or> pre \<noteq> [] \<Longrightarrow> sound (mergeArray st pre
        (map (\<lambda>(i, s, x). s (p @ [Idx i]) (Some x)) (enumerate 0 (zip items xs))))"
      by (intro sound_mergeArray)
    then show "sound (z_tuple items p inp)"
      unfolding inp z_tuple_array by simp
  qed
qed

subsection \<open>Objects\<close>

definition extra_keys :: "(string \<times> json) list \<Rightarrow> (string \<times> presult) list \<Rightarrow> string list" where
  "extra_keys kvs pairs = filter (\<lambda>k. k \<notin> set (map fst pairs)) (keys_of kvs)"

lemma status_mergeObject:
  "status (mergeObject uk p kvs pairs) =
     merge_status ((if uk = Strict \<and> extra_keys kvs pairs \<noteq> [] then Dirty else Valid)
                   # map (\<lambda>(k, r). status r) pairs)"
  by (simp add: mergeObject_def extra_keys_def Let_def)

lemma issues_of_mergeObject:
  "issues_of (mergeObject uk p kvs pairs) =
     concat (map (\<lambda>(k, r). issues_of r) pairs)
     @ (if uk = Strict \<and> extra_keys kvs pairs \<noteq> []
        then [Issue (unrecognized_keys (extra_keys kvs pairs)) p None] else [])"
  by (simp add: mergeObject_def extra_keys_def Let_def)

lemma parsed_mergeObject:
  "parsed (mergeObject uk p kvs pairs) =
     (if status (mergeObject uk p kvs pairs) = Aborted then None
      else Some (JObject (List.map_filter (\<lambda>(k, r). map_option (Pair k) (parsed r)) pairs)))"
  by (simp add: mergeObject_def extra_keys_def Let_def)

lemma pairs_same_maps:
  "list_all2 (\<lambda>a b. fst a = fst b \<and> same (snd a) (snd b)) pairs pairs' \<Longrightarrow>
   map fst pairs = map fst pairs'
   \<and> map (\<lambda>(k, r). status r) pairs = map (\<lambda>(k, r). status r) pairs'
   \<and> List.map_filter (\<lambda>(k, r). map_option (Pair k) (parsed r)) pairs
     = List.map_filter (\<lambda>(k, r). map_option (Pair k) (parsed r)) pairs'"
  by (induction rule: list_all2_induct)
    (auto simp: same_def map_filter_simps split: prod.splits option.splits)

lemma same_mergeObject:
  assumes "list_all2 (\<lambda>a b. fst a = fst b \<and> same (snd a) (snd b)) pairs pairs'"
  shows "same (mergeObject uk p kvs pairs) (mergeObject uk q kvs pairs')"
proof -
  from pairs_same_maps [OF assms]
  have k: "map fst pairs = map fst pairs'"
    and s: "map (\<lambda>(k, r). status r) pairs = map (\<lambda>(k, r). status r) pairs'"
    and v: "List.map_filter (\<lambda>(k, r). map_option (Pair k) (parsed r)) pairs
          = List.map_filter (\<lambda>(k, r). map_option (Pair k) (parsed r)) pairs'"
    by auto
  from k have e: "extra_keys kvs pairs = extra_keys kvs pairs'" by (simp add: extra_keys_def)
  have st: "status (mergeObject uk p kvs pairs) = status (mergeObject uk q kvs pairs')"
    by (simp only: status_mergeObject e s)
  show ?thesis unfolding same_def parsed_mergeObject st v by simp
qed

lemma sound_mergeObject:
  assumes "\<And>k r. (k, r) \<in> set pairs \<Longrightarrow> sound r"
  shows "sound (mergeObject uk p kvs pairs)"
proof (cases "status (mergeObject uk p kvs pairs) = Valid")
  case True
  then show ?thesis by (simp add: sound_def)
next
  case False
  then have "(uk = Strict \<and> extra_keys kvs pairs \<noteq> []) \<or> (\<exists>(k, r) \<in> set pairs. status r \<noteq> Valid)"
    by (auto simp: status_mergeObject merge_status_Valid split: if_splits)
  then show ?thesis
  proof
    assume "uk = Strict \<and> extra_keys kvs pairs \<noteq> []"
    then show ?thesis by (simp add: sound_def issues_of_mergeObject)
  next
    assume "\<exists>(k, r) \<in> set pairs. status r \<noteq> Valid"
    then obtain k r where m: "(k, r) \<in> set pairs" and n: "status r \<noteq> Valid" by auto
    from assms [OF m] n have "issues_of r \<noteq> []" by (simp add: sound_def)
    with m have "concat (map (\<lambda>(k, r). issues_of r) pairs) \<noteq> []" by force
    then show ?thesis by (simp add: sound_def issues_of_mergeObject)
  qed
qed

lemma z_object_with_object:
  "z_object_with uk f p (Some (JObject kvs)) = mergeObject uk p kvs (f kvs p)"
  by (simp add: z_object_with_def)

lemma z_object_with_other:
  "(\<And>kvs. inp \<noteq> Some (JObject kvs)) \<Longrightarrow> z_object_with uk f p inp = invalid_type_at p ''object'' inp"
  by (auto simp: z_object_with_def split: option.splits json.splits)

lemma z_object_object:
  "z_object uk sh p (Some (JObject kvs)) =
     mergeObject uk p kvs (map (\<lambda>(k, s). (k, s (p @ [Key k]) (map_of kvs k))) sh)"
  by (simp add: z_object_def z_object_with_def parse_field_def)

lemma z_object_other:
  "(\<And>kvs. inp \<noteq> Some (JObject kvs)) \<Longrightarrow> z_object uk sh p inp = invalid_type_at p ''object'' inp"
  by (simp add: z_object_def z_object_with_other)

lemma wb_z_object:
  assumes "\<And>k s v. (k, s) \<in> set sh \<Longrightarrow> wb s v"
  shows "wb (z_object uk sh) inp"
proof (cases "\<exists>kvs. inp = Some (JObject kvs)")
  case False
  then show ?thesis by (simp add: z_object_other wb_def same_def sound_def)
next
  case True
  then obtain kvs where inp: "inp = Some (JObject kvs)" by blast
  show ?thesis
  proof (rule wbI)
    fix p q
    have "list_all2 (\<lambda>a b. fst a = fst b \<and> same (snd a) (snd b))
            (map (\<lambda>(k, s). (k, s (p @ [Key k]) (map_of kvs k))) sh)
            (map (\<lambda>(k, s). (k, s (q @ [Key k]) (map_of kvs k))) sh)"
      unfolding list_all2_map1 list_all2_map2
    proof (rule list_all2_same [THEN iffD2], rule ballI)
      fix y assume "y \<in> set sh"
      then have "wb (snd y) (map_of kvs (fst y))" using assms [of "fst y" "snd y"] by simp
      then show "fst (case y of (k, s) \<Rightarrow> (k, s (p @ [Key k]) (map_of kvs k))) =
                 fst (case y of (k, s) \<Rightarrow> (k, s (q @ [Key k]) (map_of kvs k))) \<and>
                 same (snd (case y of (k, s) \<Rightarrow> (k, s (p @ [Key k]) (map_of kvs k))))
                      (snd (case y of (k, s) \<Rightarrow> (k, s (q @ [Key k]) (map_of kvs k))))"
        by (simp add: case_prod_beta wb_same)
    qed
    then show "same (z_object uk sh p inp) (z_object uk sh q inp)"
      unfolding inp z_object_object by (rule same_mergeObject)
    show "sound (z_object uk sh p inp)"
      unfolding inp z_object_object
    proof (rule sound_mergeObject)
      fix k r assume "(k, r) \<in> set (map (\<lambda>(k, s). (k, s (p @ [Key k]) (map_of kvs k))) sh)"
      then obtain s where "(k, s) \<in> set sh" and r: "r = s (p @ [Key k]) (map_of kvs k)" by auto
      then have "wb s (map_of kvs k)" using assms by blast
      then show "sound r" unfolding r by (rule wb_sound)
    qed
  qed
qed

subsection \<open>Unions\<close>

lemma find_same:
  "list_all2 same rs rs' \<Longrightarrow>
   rel_option same (find (\<lambda>r. status r = st) rs) (find (\<lambda>r. status r = st) rs')"
  by (induction rule: list_all2_induct) (auto simp: same_def)

lemma same_union_merge:
  assumes "list_all2 same rs rs'"
  shows "same (union_merge p rs) (union_merge q rs')"
  using find_same [OF assms, of Valid] find_same [OF assms, of Dirty]
  by (auto simp: union_merge_def same_def elim!: option.rel_cases)

lemma sound_union_merge:
  assumes "\<And>r. r \<in> set rs \<Longrightarrow> sound r"
  shows "sound (union_merge p rs)"
proof (cases "find (\<lambda>r. status r = Valid) rs")
  case (Some r)
  then show ?thesis by (simp add: union_merge_def sound_def)
next
  case None
  show ?thesis
  proof (cases "find (\<lambda>r. status r = Dirty) rs")
    case (Some r)
    then have "r \<in> set rs" "status r = Dirty" by (auto simp: find_Some_iff)
    with assms [of r] have "sound r" by simp
    with None Some show ?thesis by (simp add: union_merge_def)
  next
    case None': None
    with None show ?thesis by (simp add: union_merge_def)
  qed
qed

lemma wb_z_union:
  assumes "\<And>s. s \<in> set ss \<Longrightarrow> wb s inp"
  shows "wb (z_union ss) inp"
proof (rule wbI)
  fix p q
  have "list_all2 same (map (\<lambda>s. s p inp) ss) (map (\<lambda>s. s q inp) ss)"
    by (rule list_all2_same_map) (simp add: assms wb_same)
  then show "same (z_union ss p inp) (z_union ss q inp)"
    unfolding z_union_def by (rule same_union_merge)
  show "sound (z_union ss p inp)"
    unfolding z_union_def
  proof (rule sound_union_merge)
    fix r assume "r \<in> set (map (\<lambda>s. s p inp) ss)"
    then obtain s where "s \<in> set ss" and r: "r = s p inp" by auto
    then have "wb s inp" using assms by blast
    then show "sound r" unfolding r by (rule wb_sound)
  qed
qed

lemma wb_z_or: "wb a inp \<Longrightarrow> wb b inp \<Longrightarrow> wb (z_or a b) inp"
  unfolding z_or_def by (rule wb_z_union) auto

lemma wb_z_discriminatedUnion:
  assumes "\<And>t s. (t, s) \<in> set options \<Longrightarrow> wb s inp"
  shows "wb (z_discriminatedUnion d options) inp"
proof (cases "\<exists>kvs t s. inp = Some (JObject kvs) \<and> map_of kvs d = Some (JString t) \<and> map_of options t = Some s")
  case True
  then obtain kvs t s where inp: "inp = Some (JObject kvs)" and d: "map_of kvs d = Some (JString t)"
    and s: "map_of options t = Some s" by blast
  from s have "(t, s) \<in> set options" by (rule map_of_SomeD)
  then have "wb s inp" by (rule assms)
  moreover have "z_discriminatedUnion d options = (\<lambda>p i. if i = inp then s p i else z_discriminatedUnion d options p i)"
    by (auto simp: fun_eq_iff z_discriminatedUnion_def inp d s)
  ultimately show ?thesis by (simp add: wb_def z_discriminatedUnion_def inp d s)
next
  case False
  then show ?thesis
    by (auto simp: wb_def same_def sound_def z_discriminatedUnion_def split: option.splits json.splits)
qed

section \<open>The schemas of the source are well-behaved\<close>

lemma wb_z_object_at:
  assumes "\<And>kvs k s. inp = Some (JObject kvs) \<Longrightarrow> (k, s) \<in> set sh \<Longrightarrow> wb s (map_of kvs k)"
  shows "wb (z_object uk sh) inp"
proof (cases "\<exists>kvs. inp = Some (JObject kvs)")
  case False
  then show ?thesis by (simp add: z_object_other wb_def same_def sound_def)
next
  case True
  then obtain kvs where inp: "inp = Some (JObject kvs)" by blast
  have *: "wb (z_object uk (map (\<lambda>(k, s). (k, \<lambda>p v. if v = map_of kvs k then s p v else INVALID [Issue custom p None])) sh)) inp"
  proof (rule wb_z_object)
    fix k s v
    assume "(k, s) \<in> set (map (\<lambda>(k, s). (k, \<lambda>p v. if v = map_of kvs k then s p v else INVALID [Issue custom p None])) sh)"
    then obtain s' where m: "(k, s') \<in> set sh"
      and s: "s = (\<lambda>p v. if v = map_of kvs k then s' p v else INVALID [Issue custom p None])" by auto
    from assms [OF inp m] show "wb s v"
      by (simp add: s wb_def same_def sound_def)
  qed
  have "map ((\<lambda>(k, s). (k, s (p @ [Key k]) (map_of kvs k))) \<circ>
             (\<lambda>(k, s). (k, \<lambda>p v. if v = map_of kvs k then s p v else INVALID [Issue custom p None]))) sh
      = map (\<lambda>(k, s). (k, s (p @ [Key k]) (map_of kvs k))) sh" for p
    by (rule map_cong) auto
  then have "\<And>p. z_object uk (map (\<lambda>(k, s). (k, \<lambda>p v. if v = map_of kvs k then s p v else INVALID [Issue custom p None])) sh) p inp
      = z_object uk sh p inp"
    unfolding inp z_object_object map_map by (rule arg_cong)
  with * show ?thesis by (simp add: wb_def)
qed

named_theorems wb_intros

lemmas [wb_intros] = wb_z_string wb_z_number wb_z_boolean wb_z_null wb_z_undefined wb_z_literal
  wb_z_enum wb_z_optional wb_z_lazy wb_z_refine wb_refine_nonZero wb_refine_nonEmpty
  wb_refine_uniqueItems wb_z_superRefine wb_z_array_gen wb_z_tuple wb_z_object wb_z_union wb_z_or
  wb_z_discriminatedUnion

lemma wb_JSONValue [wb_intros]: "wb JSONValue inp"
  unfolding JSONValue_def by (auto intro!: wb_intros)

lemma wb_slug [wb_intros]: "wb slug inp"
  unfolding slug_def by (intro wb_intros)

lemma wb_rollOption [wb_intros]: "wb rollOption inp"
  unfolding rollOption_def by (intro wb_intros)

lemma wb_comparison [wb_intros]: "wb (comparison k) inp"
  unfolding comparison_def by (intro wb_intros) (auto intro!: wb_intros)

lemma predicate_unfold:
  "predicate =
     z_union
       [rollOption,
        z_object Strict [(''eq'', z_tuple [rollOption, z_or rollOption (z_number [])])],
        z_object Strict [(''gt'', z_tuple [rollOption, z_or rollOption (z_number [])])],
        z_object Strict [(''gte'', z_tuple [rollOption, z_or rollOption (z_number [])])],
        z_object Strict [(''lt'', z_tuple [rollOption, z_or rollOption (z_number [])])],
        z_object Strict [(''lte'', z_tuple [rollOption, z_or rollOption (z_number [])])],
        z_object Strict
          [(''and'', z_lazy (\<lambda>_. refine_uniqueItems (z_array_min 1 predicate)))],
        z_object Strict
          [(''or'', z_lazy (\<lambda>_. refine_uniqueItems (z_array_min 1 predicate)))],
        z_object Strict
          [(''xor'', z_lazy (\<lambda>_. refine_uniqueItems (z_array_min 1 predicate)))],
        z_object Strict [(''not'', z_lazy (\<lambda>_. predicate))],
        z_object Strict
          [(''nand'', z_lazy (\<lambda>_. refine_uniqueItems (z_array_min 1 predicate)))],
        z_object Strict
          [(''nor'', z_lazy (\<lambda>_. refine_uniqueItems (z_array_min 1 predicate)))],
        z_object Strict
          [(''if'', z_lazy (\<lambda>_. predicate)), (''then'', z_lazy (\<lambda>_. predicate))],
        z_object Strict
          [(''iff'', z_lazy (\<lambda>_. refine_uniqueItems (z_array_min 1 predicate)))]]"
  by (rule ext, rule ext, subst predicate.simps)
     (simp add: z_union_def z_object_def comparison_def)

lemma wb_predicate [wb_intros]: "wb predicate inp"
proof -
  have "wb predicate inp" for p :: "path_elem list"
  proof (induction p inp rule: predicate.induct)
    case (1 p inp)
    have arr: "wb (z_object Strict [(k, z_lazy (\<lambda>_. refine_uniqueItems (z_array_min 1 predicate)))]) inp"
      if IH: "\<And>kvs xs x. inp = Some (JObject kvs) \<Longrightarrow> map_of kvs k = Some (JArray xs) \<Longrightarrow> x \<in> set xs
                \<Longrightarrow> wb predicate (Some x)"
      for k
    proof (rule wb_z_object_at)
      fix kvs k' s
      assume inp: "inp = Some (JObject kvs)"
        and "(k', s) \<in> set [(k, z_lazy (\<lambda>_. refine_uniqueItems (z_array_min 1 predicate)))]"
      then have k: "k' = k" and s: "s = z_lazy (\<lambda>_. refine_uniqueItems (z_array_min 1 predicate))"
        by simp_all
      show "wb s (map_of kvs k')"
        unfolding k s
        by (intro wb_z_lazy wb_refine_uniqueItems wb_z_array_gen) (rule IH [OF inp])
    qed
    have one: "wb (z_lazy (\<lambda>_. predicate)) (map_of kvs k)"
      if "wb predicate (map_of kvs k)" for kvs k
      using that by (rule wb_z_lazy)
    have neg: "wb (z_object Strict [(''not'', z_lazy (\<lambda>_. predicate))]) inp"
    proof (rule wb_z_object_at)
      fix kvs k' s
      assume inp: "inp = Some (JObject kvs)" and "(k', s) \<in> set [(''not'', z_lazy (\<lambda>_. predicate))]"
      then have k: "k' = ''not''" and s: "s = z_lazy (\<lambda>_. predicate)" by simp_all
      show "wb s (map_of kvs k')" unfolding k s by (rule one) (rule "1.IH"(4) [OF inp])
    qed
    have cond: "wb (z_object Strict
                     [(''if'', z_lazy (\<lambda>_. predicate)), (''then'', z_lazy (\<lambda>_. predicate))]) inp"
    proof (rule wb_z_object_at)
      fix kvs k' s
      assume inp: "inp = Some (JObject kvs)"
        and "(k', s) \<in> set [(''if'', z_lazy (\<lambda>_. predicate)), (''then'', z_lazy (\<lambda>_. predicate))]"
      then have "(k' = ''if'' \<or> k' = ''then'') \<and> s = z_lazy (\<lambda>_. predicate)" by auto
      then show "wb s (map_of kvs k')"
        using one [OF "1.IH"(7) [OF inp]] one [OF "1.IH"(8) [OF inp]] by auto
    qed
    show ?case
      apply (subst predicate_unfold)
      apply (rule wb_z_union)
      using wb_rollOption [of inp] wb_comparison [unfolded comparison_def, of _ inp]
        arr [OF "1.IH"(1)] arr [OF "1.IH"(2)] arr [OF "1.IH"(3)] neg arr [OF "1.IH"(5)]
        arr [OF "1.IH"(6)] cond arr [OF "1.IH"(9)]
      apply (simp only: set_simps insert_iff empty_iff)
      apply (elim disjE FalseE; simp only:)
      done
  qed
  then show ?thesis by simp
qed

lemma wb_hexColour [wb_intros]: "wb hexColour inp"
  unfolding hexColour_def by (intro wb_intros)

lemma wb_angle [wb_intros]: "wb angle inp"
  unfolding angle_def by (intro wb_intros)

lemma wb_filePath [wb_intros]: "wb filePath inp"
  unfolding filePath_def by (intro wb_intros)

lemma wb_sequencerDBEntry [wb_intros]: "wb sequencerDBEntry inp"
  unfolding sequencerDBEntry_def by (intro wb_intros)

lemma wb_vector2 [wb_intros]: "wb vector2 inp"
  unfolding vector2_def by (auto intro!: wb_intros)

lemma wb_offset [wb_intros]: "wb offset inp"
  unfolding offset_def by (auto intro!: wb_intros)

lemma wb_soundEffect [wb_intros]: "wb soundEffect inp"
  unfolding soundEffect_def by (auto intro!: wb_intros)

lemma wb_soundData [wb_intros]: "wb soundData inp"
  unfolding soundData_def by (auto intro!: wb_intros)

lemma wb_soundConfig [wb_intros]: "wb soundConfig inp"
  unfolding soundConfig_def by (auto intro!: wb_intros)

lemma wb_presetOptions [wb_intros]: "wb presetOptions inp"
  unfolding presetOptions_def by (auto intro!: wb_intros)

lemma wb_ease [wb_intros]: "wb ease inp"
  unfolding ease_def by (intro wb_intros)

lemma wb_shape [wb_intros]: "wb shape inp"
  unfolding shape_def by (auto intro!: wb_intros)

lemma wb_blurOptions [wb_intros]: "wb blurOptions inp"
  unfolding blurOptions_def blurOptions_shape_def by (auto intro!: wb_intros)

lemma wb_effect_filter [wb_intros]: "wb effect_filter inp"
  unfolding effect_filter_def by (auto intro!: wb_intros)

lemma wb_effectOptions [wb_intros]: "wb effectOptions inp"
  unfolding effectOptions_def
  by (auto simp: extend_shape_def easingOptions_shape_def slug_checks_def intro!: wb_intros)

lemma wb_triggers [wb_intros]: "wb triggers inp"
  unfolding triggers_def by (intro wb_intros)

lemma wb_presets [wb_intros]: "wb presets inp"
  unfolding presets_def by (intro wb_intros)

lemma wb_tokenImages [wb_intros]: "wb tokenImages inp"
  unfolding tokenImages_def by (auto intro!: wb_intros)

lemma extend_partial_referenceObject:
  "extend_shape (partial referenceObject_shape) [(''contents'', c)]
     = partial referenceObject_shape @ [(''contents'', c)]"
  by (simp add: extend_shape_def partial_def referenceObject_shape_def)

lemma animationObject_unfold:
  "animationObject =
     refine_nonEmpty (z_object Strict
       (extend_shape (partial referenceObject_shape)
          [(''contents'',
            z_optional (z_lazy (\<lambda>_. refine_uniqueItems (z_array_min 1 animationObject))))]))"
  by (rule ext, rule ext, subst animationObject.simps)
     (simp add: extend_partial_referenceObject z_object_def)

lemma wb_partial_referenceObject:
  "(k, s) \<in> set (partial referenceObject_shape) \<Longrightarrow> wb s v"
  by (auto simp: partial_def referenceObject_shape_def intro!: wb_intros)

lemma wb_animationObject [wb_intros]: "wb animationObject inp"
proof -
  have "wb animationObject inp" for p :: "path_elem list"
  proof (induction p inp rule: animationObject.induct)
    case (1 p inp)
    show ?case
      apply (subst animationObject_unfold)
      apply (rule wb_refine_nonEmpty)
      apply (rule wb_z_object_at)
      apply (simp only: extend_partial_referenceObject set_append)
      apply (erule UnE)
       apply (erule wb_partial_referenceObject)
      apply (simp only: set_simps insert_iff empty_iff prod.inject)
      apply (elim disjE conjE FalseE)
      apply (simp only:)
      apply (intro wb_z_optional wb_z_lazy wb_refine_uniqueItems wb_z_array_gen)
      apply (rule "1.IH"; assumption)
      done
  qed
  then show ?thesis by simp
qed

lemma wb_animationObjects [wb_intros]: "wb (animationObjects sv) inp"
  unfolding animationObjects_def by (intro wb_intros)

lemma safeParse_wb:
  assumes "wb s d"
  shows "safeParse s d =
           Inr (if status (s [] d) = Valid then ParseSuccess (parsed (s [] d))
                else ParseFailure (issues_of (s [] d)))"
  using wb_sound [OF assms, of "[]"] by (auto simp: safeParse_def sound_def Let_def)

section \<open>The issues of one top-level entry\<close>

text \<open>
  \<open>reported\<close> reads the issues off a result of \<open>validateAnimationData\<close>;
  \<open>parse_issues s d\<close> are the issues of the error of \<open>s.safeParse(d)\<close>, none when it
  succeeds; \<open>entry_issues\<close> are the issues that the iteration for one key adds.
\<close>

definition reported :: "js_error + validation \<Rightarrow> issue list" where
  "reported r = (case r of Inr (Failure is) \<Rightarrow> is | _ \<Rightarrow> [])"

definition parse_issues :: "schema \<Rightarrow> json option \<Rightarrow> issue list" where
  "parse_issues s d = (if status (s [] d) = Valid then [] else issues_of (s [] d))"

definition key_issues :: "string \<Rightarrow> issue list" where
  "key_issues key =
     (if regex_test rollOption_re key then []
      else [Issue (invalid_string ''regex'') [Key key] (Some ''Must be a valid roll option.'')])"

definition value_schema :: "superValidate \<Rightarrow> json option \<Rightarrow> schema" where
  "value_schema superValidate v =
     (case v of Some (JString s) \<Rightarrow> rollOption | _ \<Rightarrow> animationObjects superValidate)"

definition entry_issues :: "superValidate \<Rightarrow> (string \<times> json) list \<Rightarrow> string \<Rightarrow> issue list" where
  "entry_issues superValidate data key =
     (if key = ''_tokenImages'' then parse_issues tokenImages (Some (JObject data))
      else key_issues key
           @ map (prepend_key key)
               (parse_issues (value_schema superValidate (map_of data key)) (map_of data key)))"

lemma parse_issues_valid [simp]: "status (s [] d) = Valid \<Longrightarrow> parse_issues s d = []"
  by (simp add: parse_issues_def)

lemma safeParse_issues:
  "wb s d \<Longrightarrow>
   safeParse s d = Inr (if status (s [] d) = Valid then ParseSuccess (parsed (s [] d))
                        else ParseFailure (parse_issues s d))"
  by (simp add: safeParse_wb parse_issues_def)

lemma rollOption_key_status:
  "status (rollOption [] (Some (JString key))) = Valid \<longleftrightarrow> regex_test rollOption_re key"
  by (simp add: rollOption_def z_string_def)

lemma wb_value_schema: "wb (value_schema sv v) d"
  by (auto simp: value_schema_def wb_rollOption wb_animationObjects split: option.splits json.splits)

lemma validate_key_eq:
  "validate_key sv data key issues = Inr (issues @ entry_issues sv data key)"
proof (cases "key = ''_tokenImages''")
  case True
  then show ?thesis
    by (simp add: validate_key_def entry_issues_def safeParse_wb [OF wb_tokenImages]
        parse_issues_def)
next
  case False
  have v: "(case map_of data key of
              Some (JString s) \<Rightarrow> safeParse rollOption (map_of data key)
            | _ \<Rightarrow> safeParse (animationObjects sv) (map_of data key))
           = safeParse (value_schema sv (map_of data key)) (map_of data key)"
    by (simp add: value_schema_def split: option.splits json.splits)
  show ?thesis
    unfolding validate_key_def v
    using False
    by (simp add: entry_issues_def key_issues_def safeParse_issues [OF wb_rollOption]
        safeParse_issues [OF wb_value_schema] rollOption_key_status Let_def
        del: regex_test.simps)
qed

lemma validate_keys_eq:
  "validate_keys sv data keys issues = Inr (issues @ concat (map (entry_issues sv data) keys))"
  by (induction keys arbitrary: issues) (simp_all add: validate_key_eq)

lemma validateAnimationData_object:
  "validateAnimationData sv (JObject kvs) =
     Inr (if concat (map (entry_issues sv kvs) (keys_of kvs)) = [] then Success
          else Failure (concat (map (entry_issues sv kvs) (keys_of kvs))))"
  by (simp add: validateAnimationData_def validate_keys_eq)

lemma validateAnimationData_returns: "\<exists>r. validateAnimationData sv data = Inr r"
  by (cases data) (simp_all add: validateAnimationData_object, simp_all add: validateAnimationData_def)

lemma mergeObject_Strip_data:
  "mergeObject Strip p kvs pairs = mergeObject Strip p kvs' pairs"
  by (simp add: mergeObject_def)

lemma tokenImages_own_key:
  "map_of kvs ''_tokenImages'' = map_of kvs' ''_tokenImages'' \<Longrightarrow>
   tokenImages p (Some (JObject kvs)) = tokenImages p (Some (JObject kvs'))"
  unfolding tokenImages_def z_object_object
  by (simp add: mergeObject_Strip_data [of _ kvs _ kvs'])

lemma entry_issues_alone:
  "map_of kvs k = Some v \<Longrightarrow> entry_issues sv kvs k = entry_issues sv [(k, v)] k"
proof (cases "k = ''_tokenImages''")
  case True
  assume "map_of kvs k = Some v"
  with True have "tokenImages [] (Some (JObject kvs)) = tokenImages [] (Some (JObject [(k, v)]))"
    by (intro tokenImages_own_key) simp
  with True show ?thesis by (simp add: entry_issues_def parse_issues_def)
next
  case False
  assume "map_of kvs k = Some v"
  with False show ?thesis by (simp add: entry_issues_def)
qed

lemma reported_singleton:
  "reported (validateAnimationData sv (JObject [(k, v)])) = entry_issues sv [(k, v)] k"
  by (simp add: validateAnimationData_object reported_def keys_of_def)

lemma per_key_alone:
  "concat (map (\<lambda>k. case map_of kvs k of
                        Some v \<Rightarrow> reported (validateAnimationData sv (JObject [(k, v)]))
                      | None \<Rightarrow> []) (keys_of kvs))
   = concat (map (entry_issues sv kvs) (keys_of kvs))"
proof -
  have "(case map_of kvs k of
           Some v \<Rightarrow> reported (validateAnimationData sv (JObject [(k, v)]))
         | None \<Rightarrow> []) = entry_issues sv kvs k" if "k \<in> set (keys_of kvs)" for k
  proof -
    from that obtain v where v: "map_of kvs k = Some v"
      by (auto simp: keys_of_def weak_map_of_SomeI dest!: weak_map_of_SomeI)
    then show ?thesis by (simp add: reported_singleton entry_issues_alone [OF v])
  qed
  then have "map (\<lambda>k. case map_of kvs k of
                        Some v \<Rightarrow> reported (validateAnimationData sv (JObject [(k, v)]))
                      | None \<Rightarrow> []) (keys_of kvs) = map (entry_issues sv kvs) (keys_of kvs)"
    by (intro map_cong) simp_all
  then show ?thesis by (rule arg_cong)
qed

lemma deep_equal_refl: "deep_equal a a"
proof (induction a)
  case (JArray xs)
  then show ?case by (simp add: list_all2_same)
next
  case (JObject kvs)
  have "deep_equal v v" if "map_of kvs k = Some v" for k v
  proof -
    from that have m: "(k, v) \<in> set kvs" by (rule map_of_SomeD)
    have "v \<in> Basic_BNFs.snds (k, v)" by simp
    from JObject [OF m this] show ?thesis .
  qed
  then show ?case by (auto split: option.splits)
qed simp_all

section \<open>Acceptance of the combinators\<close>

subsection \<open>When a schema accepts\<close>

lemma status_z_refine_Valid:
  "status (z_refine c rel m s p inp) = Valid \<longleftrightarrow> status (s p inp) = Valid \<and> c (parsed (s p inp))"
  by (auto simp: z_refine_def Let_def)

lemma parsed_z_refine:
  "status (z_refine c rel m s p inp) \<noteq> Aborted \<Longrightarrow> parsed (z_refine c rel m s p inp) = parsed (s p inp)"
  by (auto simp: z_refine_def Let_def split: if_splits)

lemma status_z_optional_None [simp]: "z_optional s p None = PResult Valid [] None"
  by (simp add: z_optional_def)

lemma z_optional_Some [simp]: "z_optional s p (Some v) = s p (Some v)"
  by (simp add: z_optional_def)

lemma extra_keys_empty:
  "extra_keys kvs pairs = [] \<longleftrightarrow> set (keys_of kvs) \<subseteq> set (map fst pairs)"
  by (auto simp: extra_keys_def filter_empty_conv)

lemma pairs_status:
  "map (\<lambda>(k, r). status r) (map (\<lambda>(k, s). (k, s (p @ [Key k]) (map_of kvs k))) sh)
     = map (\<lambda>(k, s). status (s (p @ [Key k]) (map_of kvs k))) sh"
  by (induction sh) auto

lemma pairs_keys:
  "map fst (map (\<lambda>(k, s). (k, s (p @ [Key k]) (map_of kvs k))) sh) = map fst sh"
  by (induction sh) auto

lemma status_z_object_Valid:
  "status (z_object uk sh p (Some (JObject kvs))) = Valid \<longleftrightarrow>
     (\<forall>(k, s) \<in> set sh. status (s (p @ [Key k]) (map_of kvs k)) = Valid)
     \<and> (uk = Strict \<longrightarrow> set (keys_of kvs) \<subseteq> set (map fst sh))"
  unfolding z_object_object status_mergeObject merge_status_Valid pairs_status
  by (auto simp: extra_keys_empty pairs_keys simp del: map_map split: if_splits)

lemma status_z_object_Aborted:
  "status (z_object uk sh p (Some (JObject kvs))) = Aborted \<longleftrightarrow>
     (\<exists>(k, s) \<in> set sh. status (s (p @ [Key k]) (map_of kvs k)) = Aborted)"
proof -
  have "Aborted \<in> set (map (\<lambda>(k, s). status (s (p @ [Key k]) (map_of kvs k))) sh) \<longleftrightarrow>
        (\<exists>(k, s) \<in> set sh. status (s (p @ [Key k]) (map_of kvs k)) = Aborted)"
    by force
  then show ?thesis
    unfolding z_object_object status_mergeObject merge_status_Aborted pairs_status
    by (simp split: if_splits)
qed

lemma parsed_z_object:
  "status (z_object uk sh p (Some (JObject kvs))) \<noteq> Aborted \<Longrightarrow>
   parsed (z_object uk sh p (Some (JObject kvs))) =
     Some (JObject (List.map_filter
       (\<lambda>(k, s). map_option (Pair k) (parsed (s (p @ [Key k]) (map_of kvs k)))) sh))"
proof -
  have "List.map_filter (\<lambda>(k, r). map_option (Pair k) (parsed r))
          (map (\<lambda>(k, s). (k, s (p @ [Key k]) (map_of kvs k))) sh)
      = List.map_filter (\<lambda>(k, s). map_option (Pair k) (parsed (s (p @ [Key k]) (map_of kvs k)))) sh"
    by (induction sh) (auto simp: map_filter_simps split: option.splits)
  then show "status (z_object uk sh p (Some (JObject kvs))) \<noteq> Aborted \<Longrightarrow> ?thesis"
    unfolding z_object_object parsed_mergeObject by simp
qed

lemma map_of_map_filter:
  "distinct (map fst sh) \<Longrightarrow>
   map_of (List.map_filter (\<lambda>(k, s). map_option (Pair k) (f k s)) sh) k' =
     (case map_of sh k' of Some s \<Rightarrow> f k' s | None \<Rightarrow> None)"
proof (induction sh)
  case Nil
  then show ?case by (simp add: map_filter_simps)
next
  case (Cons a sh)
  obtain k s where a: "a = (k, s)" by (cases a)
  from Cons.prems have d: "distinct (map fst sh)" and n: "k \<notin> fst ` set sh" by (simp_all add: a)
  from n have m: "map_of sh k = None" by (simp add: map_of_eq_None_iff)
  show ?case
    using Cons.IH [OF d] m
    by (cases "f k s") (auto simp: a map_filter_simps split: option.splits)
qed

lemma map_filter_empty:
  "List.map_filter g xs = [] \<longleftrightarrow> (\<forall>x \<in> set xs. g x = None)"
  by (induction xs) (auto simp: map_filter_simps split: option.splits)

lemma enumerate_all:
  "(\<forall>r \<in> set (enumerate 0 xs). P (fst r) (snd r)) \<longleftrightarrow> (\<forall>i < length xs. P i (xs ! i))"
proof
  assume a: "\<forall>r \<in> set (enumerate 0 xs). P (fst r) (snd r)"
  show "\<forall>i < length xs. P i (xs ! i)"
  proof (intro allI impI)
    fix i assume "i < length xs"
    then have "(i, xs ! i) \<in> set (enumerate 0 xs)" by (simp add: in_set_enumerate_eq)
    with a show "P i (xs ! i)" by force
  qed
next
  assume "\<forall>i < length xs. P i (xs ! i)"
  then show "\<forall>r \<in> set (enumerate 0 xs). P (fst r) (snd r)"
    by (auto simp: in_set_enumerate_eq)
qed

lemma status_z_array_gen_Valid:
  "status (z_array_gen mn el p (Some (JArray xs))) = Valid \<longleftrightarrow>
     (case mn of Some n \<Rightarrow> n \<le> length xs | None \<Rightarrow> True)
     \<and> (\<forall>i < length xs. status (el (p @ [Idx i]) (Some (xs ! i))) = Valid)"
proof -
  have "(\<forall>r \<in> set (map (\<lambda>(i, x). el (p @ [Idx i]) (Some x)) (enumerate 0 xs)). status r = Valid)
      \<longleftrightarrow> (\<forall>i < length xs. status (el (p @ [Idx i]) (Some (xs ! i))) = Valid)"
    using enumerate_all [of xs "\<lambda>i x. status (el (p @ [Idx i]) (Some x)) = Valid"]
    by (simp add: case_prod_beta)
  then show ?thesis
    unfolding z_array_gen_array status_mergeArray merge_status_Valid
    by (auto split: option.splits)
qed

lemma parsed_z_array_gen:
  "status (z_array_gen mn el p (Some (JArray xs))) \<noteq> Aborted \<Longrightarrow>
   parsed (z_array_gen mn el p (Some (JArray xs))) =
     Some (JArray (map (\<lambda>(i, x). elem_of (el (p @ [Idx i]) (Some x))) (enumerate 0 xs)))"
  unfolding z_array_gen_array by (simp add: parsed_mergeArray o_def case_prod_beta)

lemma status_z_array_gen_not_array:
  "(\<And>xs. inp \<noteq> Some (JArray xs)) \<Longrightarrow> status (z_array_gen mn el p inp) = Aborted"
  by (simp add: z_array_gen_other)

lemma status_union_merge_Valid:
  "status (union_merge p rs) = Valid \<longleftrightarrow> (\<exists>r \<in> set rs. status r = Valid)"
proof (cases "find (\<lambda>r. status r = Valid) rs")
  case None
  then have n: "\<forall>r \<in> set rs. status r \<noteq> Valid" by (simp add: find_None_iff)
  show ?thesis
  proof (cases "find (\<lambda>r. status r = Dirty) rs")
    case None': None
    with None n show ?thesis by (simp add: union_merge_def)
  next
    case (Some r)
    then have "status r = Dirty" by (auto simp: find_Some_iff)
    with None Some n show ?thesis by (simp add: union_merge_def)
  qed
next
  case (Some r)
  then have "r \<in> set rs" "status r = Valid" by (auto simp: find_Some_iff dest: nth_mem)
  with Some show ?thesis by (auto simp: union_merge_def)
qed

lemma status_z_union_Valid:
  "status (z_union ss p inp) = Valid \<longleftrightarrow> (\<exists>s \<in> set ss. status (s p inp) = Valid)"
  by (simp add: z_union_def status_union_merge_Valid)

lemma status_z_or_Valid:
  "status (z_or a b p inp) = Valid \<longleftrightarrow> status (a p inp) = Valid \<or> status (b p inp) = Valid"
  by (simp add: z_or_def status_z_union_Valid)

lemma status_z_number_Valid:
  "status (z_number cs p inp) = Valid \<longleftrightarrow>
     (\<exists>n. inp = Some (JNumber n) \<and> (\<forall>c \<in> set cs. number_check_issues p n c = []))"
  by (auto simp: z_number_def Let_def split: option.splits json.splits)

lemma parsed_z_number:
  "status (z_number cs p inp) \<noteq> Aborted \<Longrightarrow> parsed (z_number cs p inp) = inp"
  by (auto simp: z_number_def Let_def split: option.splits json.splits)

lemma status_z_string_Valid:
  "status (z_string cs p inp) = Valid \<longleftrightarrow>
     (\<exists>s. inp = Some (JString s) \<and> (\<forall>c \<in> set cs. string_check_issues p s c = []))"
  by (auto simp: z_string_def Let_def split: option.splits json.splits)

lemma parsed_z_string:
  "status (z_string cs p inp) \<noteq> Aborted \<Longrightarrow> parsed (z_string cs p inp) = inp"
  by (auto simp: z_string_def Let_def split: option.splits json.splits)

subsection \<open>Objects whose properties are returned as they were read\<close>

lemma returns_input_optional_number: "returns_input (z_optional (z_number cs))"
  unfolding returns_input_def
proof (intro allI impI)
  fix q v assume "status (z_optional (z_number cs) q v) \<noteq> Aborted"
  then show "parsed (z_optional (z_number cs) q v) = v"
    by (cases v) (simp_all add: parsed_z_number)
qed

lemma parsed_z_object_fields:
  assumes d: "distinct (map fst sh)"
    and r: "\<And>k s. (k, s) \<in> set sh \<Longrightarrow> returns_input s"
    and n: "status (z_object uk sh p (Some (JObject kvs))) \<noteq> Aborted"
  shows "\<exists>out. parsed (z_object uk sh p (Some (JObject kvs))) = Some (JObject out)
           \<and> (\<forall>k. map_of out k = (if k \<in> set (map fst sh) then map_of kvs k else None))
           \<and> (out = [] \<longleftrightarrow> (\<forall>k \<in> set (map fst sh). map_of kvs k = None))"
proof -
  let ?f = "\<lambda>k s. parsed (s (p @ [Key k]) (map_of kvs k))"
  let ?out = "List.map_filter (\<lambda>(k, s). map_option (Pair k) (?f k s)) sh"
  have f: "?f k s = map_of kvs k" if m: "(k, s) \<in> set sh" for k s
  proof -
    from n m have "status (s (p @ [Key k]) (map_of kvs k)) \<noteq> Aborted"
      unfolding status_z_object_Aborted by blast
    with r [OF m] show ?thesis by (simp add: returns_input_def)
  qed
  have 1: "parsed (z_object uk sh p (Some (JObject kvs))) = Some (JObject ?out)"
    using n by (rule parsed_z_object)
  have 2: "map_of ?out k = (if k \<in> set (map fst sh) then map_of kvs k else None)" for k
  proof (cases "map_of sh k")
    case None
    then have "k \<notin> set (map fst sh)" by (simp add: map_of_eq_None_iff)
    with None show ?thesis by (simp add: map_of_map_filter [OF d])
  next
    case (Some s)
    then have m: "(k, s) \<in> set sh" by (rule map_of_SomeD)
    then have "k \<in> set (map fst sh)" by force
    with Some f [OF m] show ?thesis by (simp add: map_of_map_filter [OF d])
  qed
  have 3: "?out = [] \<longleftrightarrow> (\<forall>k \<in> set (map fst sh). map_of kvs k = None)"
  proof -
    have "?out = [] \<longleftrightarrow> (\<forall>(k, s) \<in> set sh. ?f k s = None)"
      unfolding map_filter_empty by (auto split: prod.splits)
    also have "\<dots> \<longleftrightarrow> (\<forall>(k, s) \<in> set sh. map_of kvs k = None)"
      using f by auto
    also have "\<dots> \<longleftrightarrow> (\<forall>k \<in> set (map fst sh). map_of kvs k = None)"
      by force
    finally show ?thesis .
  qed
  from 1 2 3 show ?thesis by blast
qed

subsection \<open>The options of a \<open>Blur\<close> filter\<close>

lemma status_optional_number:
  "status (z_optional (z_number cs) q v) = Valid \<longleftrightarrow>
     absent_or (\<lambda>n. \<forall>c \<in> set cs. number_check_issues q n c = []) v"
  by (cases v) (auto simp: absent_or_def status_z_number_Valid split: json.splits)

lemma blur_shape_keys:
  "map fst blurOptions_shape =
     [''strength'', ''blur'', ''blurX'', ''blurY'', ''quality'', ''resolution'', ''kernelSize'']"
  by (simp add: blurOptions_shape_def)

lemma blur_shape_returns_input: "(k, s) \<in> set blurOptions_shape \<Longrightarrow> returns_input s"
  by (auto simp: blurOptions_shape_def returns_input_optional_number)

lemma blur_object_status:
  "status (z_object Strict blurOptions_shape q (Some (JObject kvs))) = Valid \<longleftrightarrow>
     set (keys_of kvs)
       \<subseteq> {''strength'', ''blur'', ''blurX'', ''blurY'', ''quality'', ''resolution'', ''kernelSize''}
     \<and> absent_or (\<lambda>n. 0 < n) (map_of kvs ''strength'')
     \<and> absent_or (\<lambda>n. 0 < n) (map_of kvs ''blur'')
     \<and> absent_or (\<lambda>n. 0 < n) (map_of kvs ''blurX'')
     \<and> absent_or (\<lambda>n. 0 < n) (map_of kvs ''blurY'')
     \<and> absent_or (\<lambda>n. isInteger n \<and> 0 < n) (map_of kvs ''quality'')
     \<and> absent_or (\<lambda>n. 0 < n) (map_of kvs ''resolution'')
     \<and> absent_or (\<lambda>n. 0 < n \<and> isInteger n) (map_of kvs ''kernelSize'')"
proof -
  have q: "(\<lambda>n. (isInteger n \<longrightarrow> 0 < n) \<and> isInteger n) = (\<lambda>n. isInteger n \<and> 0 < n)"
    and k: "(\<lambda>n. 0 < n \<and> (0 < n \<longrightarrow> isInteger n)) = (\<lambda>n. 0 < n \<and> isInteger n)"
    by auto
  show ?thesis
    unfolding status_z_object_Valid blur_shape_keys
    by (simp add: blurOptions_shape_def status_optional_number not_le q k conj_ac)
qed

lemma issues_z_object_Valid:
  assumes v: "status (z_object uk sh p (Some (JObject kvs))) = Valid"
    and c: "\<And>k s. (k, s) \<in> set sh \<Longrightarrow> status (s (p @ [Key k]) (map_of kvs k)) = Valid
              \<Longrightarrow> issues_of (s (p @ [Key k]) (map_of kvs k)) = []"
  shows "issues_of (z_object uk sh p (Some (JObject kvs))) = []"
proof -
  from v have f: "\<And>k s. (k, s) \<in> set sh \<Longrightarrow> status (s (p @ [Key k]) (map_of kvs k)) = Valid"
    and e: "uk = Strict \<longrightarrow> set (keys_of kvs) \<subseteq> set (map fst sh)"
    unfolding status_z_object_Valid by blast+
  have "concat (map (\<lambda>(k, r). issues_of r) (map (\<lambda>(k, s). (k, s (p @ [Key k]) (map_of kvs k))) sh)) = []"
    using c f by (auto simp: case_prod_beta)
  moreover have "uk = Strict \<longrightarrow> extra_keys kvs (map (\<lambda>(k, s). (k, s (p @ [Key k]) (map_of kvs k))) sh) = []"
    using e by (simp add: extra_keys_empty pairs_keys del: map_map)
  ultimately show ?thesis
    unfolding z_object_object issues_of_mergeObject by simp
qed

lemma issues_optional_number_Valid:
  "status (z_optional (z_number cs) q v) = Valid \<Longrightarrow> issues_of (z_optional (z_number cs) q v) = []"
  by (cases v) (auto simp: z_number_def Let_def split: json.splits if_splits)

lemma absent_or_positive_truthy:
  "absent_or (\<lambda>n. 0 < n) v \<Longrightarrow> truthy v \<longleftrightarrow> v \<noteq> None"
  by (cases v) (auto simp: absent_or_def split: json.splits)

lemma blurOptions_result:
  assumes v: "status (z_object Strict blurOptions_shape q (Some (JObject kvs))) = Valid"
  shows "status (blurOptions q (Some (JObject kvs))) =
           (if kvs \<noteq> [] \<and> \<not> (map_of kvs ''blur'' \<noteq> None
                 \<and> (map_of kvs ''blurX'' \<noteq> None \<or> map_of kvs ''blurY'' \<noteq> None))
            then Valid else Dirty)"
    and "kvs \<noteq> [] \<Longrightarrow> map_of kvs ''blur'' \<noteq> None
           \<and> (map_of kvs ''blurX'' \<noteq> None \<or> map_of kvs ''blurY'' \<noteq> None) \<Longrightarrow>
         issues_of (blurOptions q (Some (JObject kvs))) =
           [Issue custom (q @ [Key ''blur'']) (Some blur_message)]"
proof -
  let ?r = "z_object Strict blurOptions_shape q (Some (JObject kvs))"
  have d: "distinct (map fst blurOptions_shape)" by (simp add: blur_shape_keys)
  from v have n: "status ?r \<noteq> Aborted" by simp
  have "\<exists>out. parsed ?r = Some (JObject out)
           \<and> (\<forall>k. map_of out k = (if k \<in> set (map fst blurOptions_shape) then map_of kvs k else None))
           \<and> (out = [] \<longleftrightarrow> (\<forall>k \<in> set (map fst blurOptions_shape). map_of kvs k = None))"
    by (rule parsed_z_object_fields [OF d _ n]) (rule blur_shape_returns_input)
  then obtain out where out: "parsed ?r = Some (JObject out)"
    and look: "\<And>k. map_of out k = (if k \<in> set (map fst blurOptions_shape) then map_of kvs k else None)"
    and empty: "out = [] \<longleftrightarrow> (\<forall>k \<in> set (map fst blurOptions_shape). map_of kvs k = None)"
    by blast
  from v have pos: "absent_or (\<lambda>n. 0 < n) (map_of kvs ''blur'')"
    "absent_or (\<lambda>n. 0 < n) (map_of kvs ''blurX'')" "absent_or (\<lambda>n. 0 < n) (map_of kvs ''blurY'')"
    by (simp_all add: blur_object_status)
  from v have keys: "set (keys_of kvs) \<subseteq> set (map fst blurOptions_shape)"
    by (simp add: status_z_object_Valid)
  have e: "out = [] \<longleftrightarrow> kvs = []"
  proof
    assume "out = []"
    with empty have a: "\<forall>k \<in> set (map fst blurOptions_shape). map_of kvs k = None" by simp
    show "kvs = []"
    proof (cases kvs)
      case (Cons kv rest)
      then have "fst kv \<in> set (keys_of kvs)" by (simp add: keys_of_def)
      with keys a have "map_of kvs (fst kv) = None" by blast
      with Cons show ?thesis by (cases kv) simp
    qed simp
  next
    assume "kvs = []"
    with empty show "out = []" by simp
  qed
  have noiss: "issues_of ?r = []"
    using v
  proof (rule issues_z_object_Valid)
    fix k s
    assume "(k, s) \<in> set blurOptions_shape" "status (s (q @ [Key k]) (map_of kvs k)) = Valid"
    then show "issues_of (s (q @ [Key k]) (map_of kvs k)) = []"
      by (auto simp: blurOptions_shape_def issues_optional_number_Valid)
  qed
  have t: "truthy (property (Some (JObject out)) ''blur'') \<longleftrightarrow> map_of kvs ''blur'' \<noteq> None"
    "truthy (property (Some (JObject out)) ''blurX'') \<longleftrightarrow> map_of kvs ''blurX'' \<noteq> None"
    "truthy (property (Some (JObject out)) ''blurY'') \<longleftrightarrow> map_of kvs ''blurY'' \<noteq> None"
    using pos by (simp_all add: look blur_shape_keys absent_or_positive_truthy)
  show "status (blurOptions q (Some (JObject kvs))) =
           (if kvs \<noteq> [] \<and> \<not> (map_of kvs ''blur'' \<noteq> None
                 \<and> (map_of kvs ''blurX'' \<noteq> None \<or> map_of kvs ''blurY'' \<noteq> None))
            then Valid else Dirty)"
    using v out e t
    by (auto simp: blurOptions_def refine_nonEmpty_def z_refine_def Let_def)
  show "issues_of (blurOptions q (Some (JObject kvs))) =
           [Issue custom (q @ [Key ''blur'']) (Some blur_message)]"
    if "kvs \<noteq> []" "map_of kvs ''blur'' \<noteq> None
           \<and> (map_of kvs ''blurX'' \<noteq> None \<or> map_of kvs ''blurY'' \<noteq> None)"
    using that v out e t noiss
    by (auto simp: blurOptions_def refine_nonEmpty_def z_refine_def Let_def blur_message_def)
qed

lemma blurOptions_status:
  "status (blurOptions q (Some (JObject kvs))) = Valid \<longleftrightarrow>
     blur_bounds kvs
     \<and> \<not> (map_of kvs ''blur'' \<noteq> None
          \<and> (map_of kvs ''blurX'' \<noteq> None \<or> map_of kvs ''blurY'' \<noteq> None))"
proof (cases "status (z_object Strict blurOptions_shape q (Some (JObject kvs))) = Valid")
  case True
  from blurOptions_result(1) [OF True] True show ?thesis
    by (auto simp: blur_bounds_def blur_object_status)
next
  case False
  then have "\<not> blur_bounds kvs" by (auto simp: blur_bounds_def blur_object_status)
  moreover from False have "status (blurOptions q (Some (JObject kvs))) \<noteq> Valid"
    by (simp add: blurOptions_def refine_nonEmpty_def status_z_refine_Valid)
  ultimately show ?thesis by simp
qed

lemma status_optional_number_Aborted:
  "status (z_optional (z_number cs) q v) \<noteq> Aborted \<longleftrightarrow> absent_or (\<lambda>n. True) v"
  by (cases v) (auto simp: absent_or_def z_number_def Let_def invalid_type_at_def INVALID_def split: json.splits)

lemma blur_object_not_aborted:
  "status (z_object Strict blurOptions_shape q (Some (JObject kvs))) \<noteq> Aborted \<longleftrightarrow> blur_numbers kvs"
  unfolding status_z_object_Aborted blur_numbers_def
  by (simp add: blurOptions_shape_def status_optional_number_Aborted)

lemma blurOptions_issues:
  assumes n: "status (z_object Strict blurOptions_shape q (Some (JObject kvs))) \<noteq> Aborted"
  shows "issues_of (blurOptions q (Some (JObject kvs))) =
           issues_of (refine_nonEmpty (z_object Strict blurOptions_shape) q (Some (JObject kvs)))
           @ (if truthy (map_of kvs ''blur'')
                 \<and> (truthy (map_of kvs ''blurX'') \<or> truthy (map_of kvs ''blurY''))
              then [Issue custom (q @ [Key ''blur'']) (Some blur_message)] else [])"
proof -
  let ?r = "z_object Strict blurOptions_shape q (Some (JObject kvs))"
  let ?n = "refine_nonEmpty (z_object Strict blurOptions_shape) q (Some (JObject kvs))"
  have d: "distinct (map fst blurOptions_shape)" by (simp add: blur_shape_keys)
  have "\<exists>out. parsed ?r = Some (JObject out)
           \<and> (\<forall>k. map_of out k = (if k \<in> set (map fst blurOptions_shape) then map_of kvs k else None))
           \<and> (out = [] \<longleftrightarrow> (\<forall>k \<in> set (map fst blurOptions_shape). map_of kvs k = None))"
    by (rule parsed_z_object_fields [OF d _ n]) (rule blur_shape_returns_input)
  then obtain out where out: "parsed ?r = Some (JObject out)"
    and look: "\<And>k. map_of out k = (if k \<in> set (map fst blurOptions_shape) then map_of kvs k else None)"
    by blast
  have s: "status ?n \<noteq> Aborted" and p: "parsed ?n = Some (JObject out)"
    using n out by (simp_all add: refine_nonEmpty_def z_refine_def Let_def)
  have "blurOptions q (Some (JObject kvs)) =
      z_refine
       (\<lambda>options. \<not> truthy (property options ''blur'')
          \<or> (\<not> truthy (property options ''blurX'') \<and> \<not> truthy (property options ''blurY'')))
       [Key ''blur''] blur_message
       (refine_nonEmpty (z_object Strict blurOptions_shape)) q (Some (JObject kvs))"
    by (simp add: blurOptions_def blur_message_def)
  then show ?thesis
    using s p by (simp add: z_refine_def [of _ "[Key ''blur'']"] Let_def look blur_shape_keys)
qed

lemma effect_filter_Blur:
  "effect_filter p (Some (JObject [(''type'', JString ''Blur''), (''options'', v)])) =
     z_object Strict [(''type'', z_literal (JString ''Blur'')), (''options'', blurOptions)] p
       (Some (JObject [(''type'', JString ''Blur''), (''options'', v)]))"
  by (simp add: effect_filter_def z_discriminatedUnion_def)

lemma effect_filter_Blur_status:
  "status (effect_filter p (Some (JObject [(''type'', JString ''Blur''), (''options'', v)]))) = Valid
     \<longleftrightarrow> status (blurOptions (p @ [Key ''options'']) (Some v)) = Valid"
  unfolding effect_filter_Blur status_z_object_Valid
  by (simp add: z_literal_def keys_of_def)

lemma effect_filter_Blur_issues:
  "issues_of (effect_filter p (Some (JObject [(''type'', JString ''Blur''), (''options'', v)])))
     = issues_of (blurOptions (p @ [Key ''options'']) (Some v))"
  unfolding effect_filter_Blur z_object_object issues_of_mergeObject
  by (simp add: z_literal_def keys_of_def extra_keys_def)

lemma number_issue_code:
  "i \<in> set (issues_of (z_optional (z_number cs) q v)) \<Longrightarrow> code i \<noteq> custom"
proof (cases v)
  case None
  assume "i \<in> set (issues_of (z_optional (z_number cs) q v))"
  with None show ?thesis by simp
next
  case (Some w)
  assume i: "i \<in> set (issues_of (z_optional (z_number cs) q v))"
  have c: "code j \<noteq> custom" if "j \<in> set (number_check_issues q n c)" for j n c
    using that by (cases c) (auto split: if_splits)
  from i Some show ?thesis
    by (cases w) (auto simp: z_number_def Let_def dest: c)
qed

lemma blur_object_issue_code:
  assumes "i \<in> set (issues_of (z_object Strict blurOptions_shape q (Some (JObject kvs))))"
  shows "code i \<noteq> custom"
proof -
  from assms consider
    (field) k s where "(k, s) \<in> set blurOptions_shape"
      "i \<in> set (issues_of (s (q @ [Key k]) (map_of kvs k)))"
    | (keys) ks where "i = Issue (unrecognized_keys ks) q None"
    unfolding z_object_object issues_of_mergeObject by (auto split: if_splits)
  then show ?thesis
  proof cases
    case field
    then show ?thesis by (auto simp: blurOptions_shape_def dest: number_issue_code)
  next
    case keys
    then show ?thesis by simp
  qed
qed

lemma blurOptions_issue_iff:
  "Issue custom (q @ [Key ''blur'']) (Some blur_message)
     \<in> set (issues_of (blurOptions q (Some (JObject kvs))))
   \<longleftrightarrow> blur_numbers kvs \<and> truthy (map_of kvs ''blur'')
       \<and> (truthy (map_of kvs ''blurX'') \<or> truthy (map_of kvs ''blurY''))"
proof (cases "blur_numbers kvs")
  case False
  with blur_object_not_aborted [of q kvs]
  have a: "status (z_object Strict blurOptions_shape q (Some (JObject kvs))) = Aborted"
    by blast
  then have "issues_of (blurOptions q (Some (JObject kvs)))
      = issues_of (z_object Strict blurOptions_shape q (Some (JObject kvs)))"
    by (simp add: blurOptions_def refine_nonEmpty_def z_refine_def Let_def)
  with False show ?thesis by (auto dest: blur_object_issue_code)
next
  case True
  then have n: "status (z_object Strict blurOptions_shape q (Some (JObject kvs))) \<noteq> Aborted"
    by (simp add: blur_object_not_aborted)
  have "Issue custom (q @ [Key ''blur'']) (Some blur_message)
      \<notin> set (issues_of (refine_nonEmpty (z_object Strict blurOptions_shape) q (Some (JObject kvs))))"
    using n by (auto simp: refine_nonEmpty_def z_refine_def Let_def dest: blur_object_issue_code)
  with True show ?thesis by (simp add: blurOptions_issues [OF n])
qed

subsection \<open>The value of an accepted predicate\<close>

lemma parsed_union_merge_Valid:
  "status (union_merge p rs) = Valid \<Longrightarrow>
   \<exists>r \<in> set rs. status r = Valid \<and> parsed (union_merge p rs) = parsed r"
proof (cases "find (\<lambda>r. status r = Valid) rs")
  case None
  assume v: "status (union_merge p rs) = Valid"
  from None have "\<forall>r \<in> set rs. status r \<noteq> Valid" by (simp add: find_None_iff)
  with v show ?thesis by (simp add: status_union_merge_Valid)
next
  case (Some r)
  then have "r \<in> set rs" "status r = Valid" by (auto simp: find_Some_iff dest: nth_mem)
  with Some show ?thesis by (auto simp: union_merge_def)
qed

lemma parsed_z_union_Valid:
  "status (z_union ss p inp) = Valid \<Longrightarrow>
   \<exists>s \<in> set ss. status (s p inp) = Valid \<and> parsed (z_union ss p inp) = parsed (s p inp)"
  using parsed_union_merge_Valid [of p "map (\<lambda>s. s p inp) ss"] by (auto simp: z_union_def)

lemma map_filter_single:
  "distinct xs \<Longrightarrow> k \<in> set xs \<Longrightarrow> (\<And>k'. k' \<noteq> k \<Longrightarrow> g k' = None) \<Longrightarrow> g k = Some y \<Longrightarrow>
   List.map_filter g xs = [y]"
proof (induction xs)
  case Nil
  then show ?case by simp
next
  case (Cons a xs)
  show ?case
  proof (cases "a = k")
    case True
    have "g x = None" if "x \<in> set xs" for x
    proof -
      from that True Cons.prems(1) have "x \<noteq> k" by auto
      then show ?thesis by (rule Cons.prems(3))
    qed
    then have "List.map_filter g xs = []" by (simp add: map_filter_empty)
    with True Cons.prems show ?thesis by (simp add: map_filter_simps)
  next
    case False
    with Cons show ?thesis by (simp add: map_filter_simps)
  qed
qed

lemma map_of_not_key: "k \<notin> set (keys_of kvs) \<Longrightarrow> map_of kvs k = None"
  by (simp add: keys_of_def map_of_eq_None_iff)

lemma status_z_object_Valid_object:
  "status (z_object uk sh p (Some x)) = Valid \<Longrightarrow> \<exists>kvs. x = JObject kvs"
  by (cases x) (simp_all add: z_object_other)

lemma object1_value:
  assumes v: "status (z_object Strict [(k, s)] p (Some x)) = Valid"
    and k: "k \<in> set predicate_keys"
    and f: "\<And>kvs. x = JObject kvs \<Longrightarrow> status (s (p @ [Key k]) (map_of kvs k)) = Valid \<Longrightarrow>
              \<exists>v. map_of kvs k = Some v
                 \<and> parsed (s (p @ [Key k]) (map_of kvs k)) = Some (predicate_value v)"
  shows "parsed (z_object Strict [(k, s)] p (Some x)) = Some (predicate_value x)"
proof -
  from v obtain kvs where x: "x = JObject kvs" by (auto dest: status_z_object_Valid_object)
  from v have fv: "status (s (p @ [Key k]) (map_of kvs k)) = Valid"
    and keys: "set (keys_of kvs) \<subseteq> {k}"
    by (simp_all add: x status_z_object_Valid)
  from f [OF x fv] obtain v' where m: "map_of kvs k = Some v'"
    and pv: "parsed (s (p @ [Key k]) (map_of kvs k)) = Some (predicate_value v')" by blast
  from v have "status (z_object Strict [(k, s)] p (Some (JObject kvs))) \<noteq> Aborted" by (simp add: x)
  then have 1: "parsed (z_object Strict [(k, s)] p (Some (JObject kvs)))
      = Some (JObject [(k, predicate_value v')])"
    by (simp add: parsed_z_object map_filter_simps pv)
  have d: "distinct predicate_keys" by (simp add: predicate_keys_def)
  have "List.map_filter (\<lambda>k. map_option (\<lambda>v. (k, predicate_value v)) (map_of kvs k)) predicate_keys
      = [(k, predicate_value v')]"
  proof (rule map_filter_single [OF d k])
    fix k' assume "k' \<noteq> k"
    with keys have "k' \<notin> set (keys_of kvs)" by auto
    then show "map_option (\<lambda>v. (k', predicate_value v)) (map_of kvs k') = None"
      by (simp add: map_of_not_key)
  next
    show "map_option (\<lambda>v. (k, predicate_value v)) (map_of kvs k) = Some (k, predicate_value v')"
      by (simp add: m)
  qed
  with 1 show ?thesis by (simp add: x)
qed

lemma status_z_tuple2_Valid:
  "status (z_tuple [s, t] p inp) = Valid \<longleftrightarrow>
     (\<exists>a b. inp = Some (JArray [a, b]) \<and> status (s (p @ [Idx 0]) (Some a)) = Valid
        \<and> status (t (p @ [Idx 1]) (Some b)) = Valid)"
proof (cases "\<exists>xs. inp = Some (JArray xs)")
  case False
  then have "status (z_tuple [s, t] p inp) = Aborted" by (simp add: z_tuple_other)
  with False show ?thesis by auto
next
  case True
  then obtain xs where inp: "inp = Some (JArray xs)" by blast
  show ?thesis
  proof (cases xs)
    case Nil
    then show ?thesis by (simp add: inp z_tuple_array)
  next
    case (Cons a ys)
    show ?thesis
    proof (cases ys)
      case Nil
      with Cons show ?thesis by (simp add: inp z_tuple_array)
    next
      case c: (Cons b zs)
      show ?thesis
        by (cases zs) (auto simp: inp Cons c z_tuple_array merge_status_Valid)
    qed
  qed
qed

lemma parsed_z_tuple2:
  "parsed (z_tuple [s, t] p (Some (JArray [a, b]))) =
     (if status (z_tuple [s, t] p (Some (JArray [a, b]))) = Aborted then None
      else Some (JArray [elem_of (s (p @ [Idx 0]) (Some a)), elem_of (t (p @ [Idx 1]) (Some b))]))"
  by (simp add: z_tuple_array parsed_mergeArray)

lemma status_rollOption_Valid:
  "status (rollOption p inp) = Valid \<longleftrightarrow> (\<exists>s. inp = Some (JString s) \<and> regex_test rollOption_re s)"
  by (auto simp: rollOption_def status_z_string_Valid simp del: regex_test.simps)

lemma parsed_rollOption: "status (rollOption p inp) = Valid \<Longrightarrow> parsed (rollOption p inp) = inp"
  by (simp add: rollOption_def parsed_z_string)

lemma status_comparand_Valid:
  "status (z_or rollOption (z_number []) p inp) = Valid \<longleftrightarrow>
     (\<exists>s. inp = Some (JString s) \<and> regex_test rollOption_re s) \<or> (\<exists>n. inp = Some (JNumber n))"
  by (simp add: status_z_or_Valid status_rollOption_Valid status_z_number_Valid del: regex_test.simps)

lemma parsed_comparand:
  assumes "status (z_or rollOption (z_number []) p inp) = Valid"
  shows "parsed (z_or rollOption (z_number []) p inp) = inp"
proof -
  from assms obtain s where "s \<in> set [rollOption, z_number []]" "status (s p inp) = Valid"
    "parsed (z_or rollOption (z_number []) p inp) = parsed (s p inp)"
    unfolding z_or_def by (blast dest: parsed_z_union_Valid)
  then show ?thesis by (auto simp: parsed_rollOption parsed_z_number)
qed

lemma comparison_tuple:
  assumes "status (z_tuple [rollOption, z_or rollOption (z_number [])] p inp) = Valid"
  shows "\<exists>v. inp = Some v
     \<and> parsed (z_tuple [rollOption, z_or rollOption (z_number [])] p inp) = Some (predicate_value v)"
proof -
  from assms obtain a b where inp: "inp = Some (JArray [a, b])"
    and a: "status (rollOption (p @ [Idx 0]) (Some a)) = Valid"
    and b: "status (z_or rollOption (z_number []) (p @ [Idx 1]) (Some b)) = Valid"
    unfolding status_z_tuple2_Valid by blast
  from a have pa: "predicate_value a = a" by (auto simp: status_rollOption_Valid)
  from b have pb: "predicate_value b = b" by (auto simp: status_comparand_Valid)
  from parsed_comparand [OF b]
  have qb: "parsed (z_or rollOption (z_number []) (p @ [Idx (Suc 0)]) (Some b)) = Some b" by simp
  from assms show ?thesis
    by (simp add: inp parsed_z_tuple2 parsed_rollOption [OF a] qb pa pb)
qed

lemmas predicate_at = predicate_unfold [THEN fun_cong, THEN fun_cong]

lemma status_predicate_None: "status (predicate p None) \<noteq> Valid"
proof
  assume "status (predicate p None) = Valid"
  then show False
    apply (subst (asm) predicate_at)
    apply (simp only: status_z_union_Valid)
    apply (simp add: z_object_other status_rollOption_Valid del: regex_test.simps)
    done
qed

lemma map_enumerate_nth:
  assumes "\<And>i. i < length xs \<Longrightarrow> f i (xs ! i) = g (xs ! i)"
  shows "map (\<lambda>(i, x). f i x) (enumerate 0 xs) = map g xs"
proof (rule nth_equalityI)
  show "length (map (\<lambda>(i, x). f i x) (enumerate 0 xs)) = length (map g xs)" by simp
next
  fix i assume "i < length (map (\<lambda>(i, x). f i x) (enumerate 0 xs))"
  then have i: "i < length xs" by simp
  then show "map (\<lambda>(i, x). f i x) (enumerate 0 xs) ! i = map g xs ! i"
    by (simp add: nth_enumerate_eq assms)
qed

lemma combinator_array:
  assumes IH: "\<And>y q. y \<in> set arr \<Longrightarrow> status (predicate q (Some y)) = Valid \<Longrightarrow>
                 parsed (predicate q (Some y)) = Some (predicate_value y)"
    and v: "status (refine_uniqueItems (z_array_min 1 predicate) p (Some (JArray arr))) = Valid"
  shows "parsed (refine_uniqueItems (z_array_min 1 predicate) p (Some (JArray arr)))
           = Some (JArray (map predicate_value arr))"
proof -
  from v have a: "status (z_array_min 1 predicate p (Some (JArray arr))) = Valid"
    by (simp add: refine_uniqueItems_def status_z_refine_Valid)
  then have e: "\<And>i. i < length arr \<Longrightarrow> status (predicate (p @ [Idx i]) (Some (arr ! i))) = Valid"
    by (simp add: status_z_array_gen_Valid)
  have "elem_of (predicate (p @ [Idx i]) (Some (arr ! i))) = predicate_value (arr ! i)"
    if "i < length arr" for i
    using IH [OF _ e [OF that]] that by simp
  then have m: "map (\<lambda>(i, x). elem_of (predicate (p @ [Idx i]) (Some x))) (enumerate 0 arr)
      = map predicate_value arr"
    by (rule map_enumerate_nth)
  from v have "parsed (refine_uniqueItems (z_array_min 1 predicate) p (Some (JArray arr)))
      = parsed (z_array_min 1 predicate p (Some (JArray arr)))"
    by (simp add: refine_uniqueItems_def parsed_z_refine)
  also from a have "\<dots> = Some (JArray (map (\<lambda>(i, x). elem_of (predicate (p @ [Idx i]) (Some x)))
      (enumerate 0 arr)))"
    by (simp add: parsed_z_array_gen)
  finally show ?thesis by (simp only: m)
qed

lemma status_combinator_array:
  "status (refine_uniqueItems (z_array_min 1 predicate) p inp) = Valid \<Longrightarrow>
   \<exists>arr. inp = Some (JArray arr)"
proof (rule ccontr)
  assume v: "status (refine_uniqueItems (z_array_min 1 predicate) p inp) = Valid"
    and "\<nexists>arr. inp = Some (JArray arr)"
  then have "status (z_array_min 1 predicate p inp) = Aborted"
    by (simp add: status_z_array_gen_not_array)
  with v show False by (simp add: refine_uniqueItems_def status_z_refine_Valid)
qed

lemma predicate_parsed:
  "status (predicate p (Some x)) = Valid \<Longrightarrow>
   parsed (predicate p (Some x)) = Some (predicate_value x)"
proof (induction x arbitrary: p rule: measure_induct_rule [where f = size])
  case (less x)
  let ?tuple = "z_tuple [rollOption, z_or rollOption (z_number [])]"
  let ?array = "z_lazy (\<lambda>_. refine_uniqueItems (z_array_min 1 predicate))"
  let ?opts = "[rollOption,
        z_object Strict [(''eq'', ?tuple)],
        z_object Strict [(''gt'', ?tuple)],
        z_object Strict [(''gte'', ?tuple)],
        z_object Strict [(''lt'', ?tuple)],
        z_object Strict [(''lte'', ?tuple)],
        z_object Strict [(''and'', ?array)],
        z_object Strict [(''or'', ?array)],
        z_object Strict [(''xor'', ?array)],
        z_object Strict [(''not'', z_lazy (\<lambda>_. predicate))],
        z_object Strict [(''nand'', ?array)],
        z_object Strict [(''nor'', ?array)],
        z_object Strict [(''if'', z_lazy (\<lambda>_. predicate)), (''then'', z_lazy (\<lambda>_. predicate))],
        z_object Strict [(''iff'', ?array)]]"
  have pu: "predicate p (Some x) = z_union ?opts p (Some x)" by (rule predicate_at)
  from less.prems have "status (z_union ?opts p (Some x)) = Valid" by (simp only: pu [symmetric])
  then obtain s where s: "s \<in> set ?opts"
    and v: "status (s p (Some x)) = Valid"
    and e': "parsed (z_union ?opts p (Some x)) = parsed (s p (Some x))"
    by (blast dest: parsed_z_union_Valid)
  from e' have e: "parsed (predicate p (Some x)) = parsed (s p (Some x))"
    by (simp only: pu [symmetric])
  from s consider (roll) "s = rollOption"
    | (cmp) k where "k \<in> set predicate_keys" "s = z_object Strict [(k, ?tuple)]"
    | (arr) k where "k \<in> set predicate_keys" "s = z_object Strict [(k, ?array)]"
    | (neg) "s = z_object Strict [(''not'', z_lazy (\<lambda>_. predicate))]"
    | (cond) "s = z_object Strict
          [(''if'', z_lazy (\<lambda>_. predicate)), (''then'', z_lazy (\<lambda>_. predicate))]"
    unfolding predicate_keys_def by (simp only: set_simps insert_iff empty_iff) blast
  then have "parsed (s p (Some x)) = Some (predicate_value x)"
  proof cases
    case roll
    with v show ?thesis by (auto simp: status_rollOption_Valid parsed_rollOption)
  next
    case (cmp k)
    from v show ?thesis
      unfolding cmp(2) using cmp(1)
      by (rule object1_value) (rule comparison_tuple)
  next
    case (arr k)
    from v show ?thesis
      unfolding arr(2) using arr(1)
    proof (rule object1_value)
      fix kvs
      assume x: "x = JObject kvs" and "status (?array (p @ [Key k]) (map_of kvs k)) = Valid"
      then have a: "status (refine_uniqueItems (z_array_min 1 predicate) (p @ [Key k]) (map_of kvs k))
          = Valid" by (simp add: z_lazy_def)
      then obtain xs where m: "map_of kvs k = Some (JArray xs)"
        by (blast dest: status_combinator_array)
      have "parsed (refine_uniqueItems (z_array_min 1 predicate) (p @ [Key k]) (Some (JArray xs)))
           = Some (JArray (map predicate_value xs))"
      proof (rule combinator_array)
        fix y q assume y: "y \<in> set xs" and vy: "status (predicate q (Some y)) = Valid"
        from map_of_size_elem [OF m y] have "size y < size x" by (simp add: x)
        then show "parsed (predicate q (Some y)) = Some (predicate_value y)"
          using vy by (rule less.IH)
      next
        from a show "status (refine_uniqueItems (z_array_min 1 predicate) (p @ [Key k])
            (Some (JArray xs))) = Valid" by (simp add: m)
      qed
      then show "\<exists>v. map_of kvs k = Some v
          \<and> parsed (?array (p @ [Key k]) (map_of kvs k)) = Some (predicate_value v)"
        by (simp add: m z_lazy_def)
    qed
  next
    case neg
    from v show ?thesis
      unfolding neg
    proof (rule object1_value)
      show "''not'' \<in> set predicate_keys" by (simp add: predicate_keys_def)
    next
      fix kvs
      assume x: "x = JObject kvs"
        and "status (z_lazy (\<lambda>_. predicate) (p @ [Key ''not'']) (map_of kvs ''not'')) = Valid"
      then have a: "status (predicate (p @ [Key ''not'']) (map_of kvs ''not'')) = Valid"
        by (simp add: z_lazy_def)
      then obtain w where m: "map_of kvs ''not'' = Some w"
        using status_predicate_None [of "p @ [Key ''not'']"] by (cases "map_of kvs ''not''") auto
      from map_of_size [OF m] have "size w < size x" by (simp add: x)
      from less.IH [OF this] a have "parsed (predicate (p @ [Key ''not'']) (Some w))
          = Some (predicate_value w)" by (simp add: m)
      then show "\<exists>v. map_of kvs ''not'' = Some v
          \<and> parsed (z_lazy (\<lambda>_. predicate) (p @ [Key ''not'']) (map_of kvs ''not''))
              = Some (predicate_value v)"
        by (simp add: m z_lazy_def)
    qed
  next
    case cond
    from v obtain kvs where x: "x = JObject kvs"
      unfolding cond by (auto dest: status_z_object_Valid_object)
    from v have a: "status (predicate (p @ [Key ''if'']) (map_of kvs ''if'')) = Valid"
      and b: "status (predicate (p @ [Key ''then'']) (map_of kvs ''then'')) = Valid"
      and keys: "set (keys_of kvs) \<subseteq> {''if'', ''then''}"
      unfolding cond x status_z_object_Valid by (simp_all add: z_lazy_def)
    from a obtain wa where ma: "map_of kvs ''if'' = Some wa"
      using status_predicate_None [of "p @ [Key ''if'']"] by (cases "map_of kvs ''if''") auto
    from b obtain wb where mb: "map_of kvs ''then'' = Some wb"
      using status_predicate_None [of "p @ [Key ''then'']"] by (cases "map_of kvs ''then''") auto
    from map_of_size [OF ma] have "size wa < size x" by (simp add: x)
    from less.IH [OF this] a have pa: "parsed (predicate (p @ [Key ''if'']) (Some wa))
          = Some (predicate_value wa)" by (simp add: ma)
    from map_of_size [OF mb] have "size wb < size x" by (simp add: x)
    from less.IH [OF this] b have pb: "parsed (predicate (p @ [Key ''then'']) (Some wb))
          = Some (predicate_value wb)" by (simp add: mb)
    have n: "map_of kvs k' = None" if "k' \<noteq> ''if''" "k' \<noteq> ''then''" for k'
    proof -
      from that keys have "k' \<notin> set (keys_of kvs)" by auto
      then show ?thesis by (rule map_of_not_key)
    qed
    from v have "status (s p (Some (JObject kvs))) \<noteq> Aborted" by (simp add: x)
    then have "parsed (s p (Some (JObject kvs)))
        = Some (JObject [(''if'', predicate_value wa), (''then'', predicate_value wb)])"
      unfolding cond by (simp add: parsed_z_object map_filter_simps z_lazy_def ma mb pa pb)
    moreover have "predicate_value (JObject kvs)
        = JObject [(''if'', predicate_value wa), (''then'', predicate_value wb)]"
      by (simp add: predicate_keys_def map_filter_simps n ma mb)
    ultimately show ?thesis by (simp add: x)
  qed
  with e show ?case by simp
qed

lemma deep_equal_predicate_value:
  "deep_equal x y \<Longrightarrow> predicate_value x = predicate_value y"
proof (induction x y rule: deep_equal.induct)
  case (1 xs ys)
  from "1.prems" have "list_all2 deep_equal xs ys" by simp
  then have "list_all2 (\<lambda>x y. predicate_value x = predicate_value y) xs ys"
    by (rule list.rel_mono_strong) (rule "1.IH")
  then have "map predicate_value xs = map predicate_value ys"
    by (induction rule: list_all2_induct) simp_all
  then show ?case by simp
next
  case (2 kvs kvs')
  have "map_option (\<lambda>v. (k, predicate_value v)) (map_of kvs k)
      = map_option (\<lambda>v. (k, predicate_value v)) (map_of kvs' k)" for k
  proof (cases "k \<in> set (map fst kvs @ map fst kvs')")
    case False
    then have "map_of kvs k = None" "map_of kvs' k = None" by (simp_all add: map_of_eq_None_iff)
    then show ?thesis by simp
  next
    case True
    with "2.prems" have c: "case (map_of kvs k, map_of kvs' k) of
          (Some v, Some v') \<Rightarrow> deep_equal v v'
        | (None, None) \<Rightarrow> True
        | _ \<Rightarrow> False"
      unfolding deep_equal.simps by blast
    show ?thesis
    proof (cases "map_of kvs k")
      case None
      with c show ?thesis by (cases "map_of kvs' k") simp_all
    next
      case (Some v)
      with c obtain v' where s': "map_of kvs' k = Some v'" and d: "deep_equal v v'"
        by (cases "map_of kvs' k") simp_all
      from "2.IH" [OF True refl Some s' d] show ?thesis by (simp add: Some s')
    qed
  qed
  then have "(\<lambda>k. map_option (\<lambda>v. (k, predicate_value v)) (map_of kvs k))
      = (\<lambda>k. map_option (\<lambda>v. (k, predicate_value v)) (map_of kvs' k))"
    by (rule ext)
  then show ?case by (simp only: predicate_value.simps)
qed simp_all

subsection \<open>The unique-items refinement on an array\<close>

lemma uniqueItems_imp_distinct: "uniqueItems arr \<Longrightarrow> distinct arr"
proof -
  assume "uniqueItems arr"
  then have "card (set (map stringify arr)) = length (map stringify arr)"
    by (simp add: uniqueItems_def)
  then have "distinct (map stringify arr)" by (rule card_distinct)
  then show "distinct arr" by (simp add: distinct_map)
qed

lemma uniqueItems_mset: "mset arr' = mset arr \<Longrightarrow> uniqueItems arr' = uniqueItems arr"
proof -
  assume m: "mset arr' = mset arr"
  then have "set arr' = set arr" by (rule mset_eq_setD)
  moreover from m have "length arr' = length arr" by (rule mset_eq_length)
  ultimately show ?thesis by (simp add: uniqueItems_def)
qed

lemma refine_uniqueItems_array:
  assumes n: "status (z_array_gen mn el p (Some (JArray xs))) \<noteq> Aborted"
  shows "refine_uniqueItems (z_array_gen mn el) p (Some (JArray xs)) =
     (if uniqueItems (map (\<lambda>(i, x). elem_of (el (p @ [Idx i]) (Some x))) (enumerate 0 xs))
      then z_array_gen mn el p (Some (JArray xs))
      else PResult Dirty
             (issues_of (z_array_gen mn el p (Some (JArray xs)))
                @ [Issue custom p (Some uniqueItems_msg)])
             (parsed (z_array_gen mn el p (Some (JArray xs)))))"
  using n by (simp add: refine_uniqueItems_def z_refine_def Let_def parsed_z_array_gen)

lemma parsed_elements_alike:
  assumes ij: "i < j" "j < length xs"
    and e: "parsed (el (p @ [Idx i]) (Some (xs ! i))) = parsed (el (p @ [Idx j]) (Some (xs ! j)))"
  shows "\<not> distinct (map (\<lambda>(i, x). elem_of (el (p @ [Idx i]) (Some x))) (enumerate 0 xs))"
proof -
  let ?ys = "map (\<lambda>(i, x). elem_of (el (p @ [Idx i]) (Some x))) (enumerate 0 xs)"
  from ij have i: "i < length xs" by simp
  have "?ys ! i = elem_of (el (p @ [Idx i]) (Some (xs ! i)))"
    using i by (simp add: nth_enumerate_eq)
  moreover have "?ys ! j = elem_of (el (p @ [Idx j]) (Some (xs ! j)))"
    using ij by (simp add: nth_enumerate_eq)
  ultimately have "?ys ! i = ?ys ! j" by (simp add: e)
  moreover have "i < length ?ys" "j < length ?ys" "i \<noteq> j" using ij by simp_all
  ultimately show ?thesis unfolding distinct_conv_nth by blast
qed

lemma refine_uniqueItems_alike:
  assumes n: "status (z_array_gen mn el p (Some (JArray xs))) \<noteq> Aborted"
    and ij: "i < j" "j < length xs"
    and e: "parsed (el (p @ [Idx i]) (Some (xs ! i))) = parsed (el (p @ [Idx j]) (Some (xs ! j)))"
  shows "refine_uniqueItems (z_array_gen mn el) p (Some (JArray xs)) =
           PResult Dirty
             (issues_of (z_array_gen mn el p (Some (JArray xs)))
                @ [Issue custom p (Some uniqueItems_msg)])
             (parsed (z_array_gen mn el p (Some (JArray xs))))"
proof -
  from parsed_elements_alike [OF ij e]
  have "\<not> uniqueItems (map (\<lambda>(i, x). elem_of (el (p @ [Idx i]) (Some x))) (enumerate 0 xs))"
    by (blast dest: uniqueItems_imp_distinct)
  then show ?thesis by (simp only: refine_uniqueItems_array [OF n] if_False)
qed

lemma predicate_array_deep_equal:
  assumes v: "status (refine_uniqueItems (z_array_min 1 predicate) p (Some (JArray xs))) = Valid"
    and ij: "i < j" "j < length xs"
  shows "\<not> deep_equal (xs ! i) (xs ! j)"
proof
  assume d: "deep_equal (xs ! i) (xs ! j)"
  from v have a: "status (z_array_min 1 predicate p (Some (JArray xs))) = Valid"
    by (simp add: refine_uniqueItems_def status_z_refine_Valid)
  then have e: "\<And>i. i < length xs \<Longrightarrow> status (predicate (p @ [Idx i]) (Some (xs ! i))) = Valid"
    by (simp add: status_z_array_gen_Valid)
  from ij have i: "i < length xs" by simp
  have "parsed (predicate (p @ [Idx i]) (Some (xs ! i))) = Some (predicate_value (xs ! i))"
    by (rule predicate_parsed [OF e [OF i]])
  moreover have "parsed (predicate (p @ [Idx j]) (Some (xs ! j))) = Some (predicate_value (xs ! j))"
    by (rule predicate_parsed [OF e [OF ij(2)]])
  moreover from d have "predicate_value (xs ! i) = predicate_value (xs ! j)"
    by (rule deep_equal_predicate_value)
  ultimately have "parsed (predicate (p @ [Idx i]) (Some (xs ! i)))
      = parsed (predicate (p @ [Idx j]) (Some (xs ! j)))" by simp
  moreover from a have "status (z_array_min 1 predicate p (Some (JArray xs))) \<noteq> Aborted" by simp
  ultimately have "status (refine_uniqueItems (z_array_min 1 predicate) p (Some (JArray xs))) = Dirty"
    using ij by (simp add: refine_uniqueItems_alike)
  with v show False by simp
qed

subsection \<open>The object forms of a predicate\<close>

lemma object1_status:
  "status (z_object Strict [(k, s)] p (Some (JObject kvs))) = Valid \<longleftrightarrow>
     set (keys_of kvs) \<subseteq> {k} \<and> status (s (p @ [Key k]) (map_of kvs k)) = Valid"
  by (auto simp: status_z_object_Valid)

lemma object2_status:
  "status (z_object Strict [(k, s), (k', s')] p (Some (JObject kvs))) = Valid \<longleftrightarrow>
     set (keys_of kvs) \<subseteq> {k, k'} \<and> status (s (p @ [Key k]) (map_of kvs k)) = Valid
     \<and> status (s' (p @ [Key k']) (map_of kvs k')) = Valid"
  by (auto simp: status_z_object_Valid)

lemma status_rollOption_object: "status (rollOption p (Some (JObject kvs))) \<noteq> Valid"
  by (simp add: status_rollOption_Valid del: regex_test.simps)

lemma predicate_object_status:
  "status (predicate p (Some (JObject kvs))) = Valid \<longleftrightarrow>
     (\<exists>k \<in> set comparison_keys. set (keys_of kvs) \<subseteq> {k}
         \<and> status (z_tuple [rollOption, z_or rollOption (z_number [])] (p @ [Key k]) (map_of kvs k))
             = Valid)
     \<or> (\<exists>k \<in> set combinator_keys. set (keys_of kvs) \<subseteq> {k}
         \<and> status (refine_uniqueItems (z_array_min 1 predicate) (p @ [Key k]) (map_of kvs k))
             = Valid)
     \<or> (set (keys_of kvs) \<subseteq> {''not''}
         \<and> status (predicate (p @ [Key ''not'']) (map_of kvs ''not'')) = Valid)
     \<or> (set (keys_of kvs) \<subseteq> {''if'', ''then''}
         \<and> status (predicate (p @ [Key ''if'']) (map_of kvs ''if'')) = Valid
         \<and> status (predicate (p @ [Key ''then'']) (map_of kvs ''then'')) = Valid)"
proof -
  define K where "K k \<longleftrightarrow> set (keys_of kvs) \<subseteq> {k}" for k
  define T where "T k \<longleftrightarrow>
    status (z_tuple [rollOption, z_or rollOption (z_number [])] (p @ [Key k]) (map_of kvs k)) = Valid"
    for k
  define A where "A k \<longleftrightarrow>
    status (refine_uniqueItems (z_array_min 1 predicate) (p @ [Key k]) (map_of kvs k)) = Valid"
    for k
  define N where "N \<longleftrightarrow> set (keys_of kvs) \<subseteq> {''not''}
         \<and> status (predicate (p @ [Key ''not'']) (map_of kvs ''not'')) = Valid"
  define C where "C \<longleftrightarrow> set (keys_of kvs) \<subseteq> {''if'', ''then''}
         \<and> status (predicate (p @ [Key ''if'']) (map_of kvs ''if'')) = Valid
         \<and> status (predicate (p @ [Key ''then'']) (map_of kvs ''then'')) = Valid"
  have o: "status (z_object Strict [(k, z_tuple [rollOption, z_or rollOption (z_number [])])] p
              (Some (JObject kvs))) = Valid \<longleftrightarrow> K k \<and> T k"
    "status (z_object Strict [(k, z_lazy (\<lambda>_. refine_uniqueItems (z_array_min 1 predicate)))] p
              (Some (JObject kvs))) = Valid \<longleftrightarrow> K k \<and> A k" for k
    by (simp_all only: object1_status K_def T_def A_def z_lazy_def)
  have n: "status (z_object Strict [(''not'', z_lazy (\<lambda>_. predicate))] p (Some (JObject kvs))) = Valid
      \<longleftrightarrow> N"
    by (simp only: object1_status N_def z_lazy_def)
  have c: "status (z_object Strict
          [(''if'', z_lazy (\<lambda>_. predicate)), (''then'', z_lazy (\<lambda>_. predicate))] p
          (Some (JObject kvs))) = Valid \<longleftrightarrow> C"
    by (simp only: object2_status C_def z_lazy_def)
  have "status (predicate p (Some (JObject kvs))) = Valid \<longleftrightarrow>
      K ''eq'' \<and> T ''eq'' \<or> K ''gt'' \<and> T ''gt'' \<or> K ''gte'' \<and> T ''gte'' \<or> K ''lt'' \<and> T ''lt''
      \<or> K ''lte'' \<and> T ''lte'' \<or> K ''and'' \<and> A ''and'' \<or> K ''or'' \<and> A ''or''
      \<or> K ''xor'' \<and> A ''xor'' \<or> N \<or> K ''nand'' \<and> A ''nand'' \<or> K ''nor'' \<and> A ''nor'' \<or> C
      \<or> K ''iff'' \<and> A ''iff''"
    apply (subst predicate_at)
    apply (simp only: status_z_union_Valid list.set bex_simps insert_iff empty_iff
        bex_disj_distrib simp_thms o n c status_rollOption_object)
    done
  also have "\<dots> \<longleftrightarrow> (\<exists>k \<in> set comparison_keys. K k \<and> T k)
       \<or> (\<exists>k \<in> set combinator_keys. K k \<and> A k) \<or> N \<or> C"
    unfolding comparison_keys_def combinator_keys_def
    by (simp only: list.set bex_simps insert_iff empty_iff simp_thms) blast
  finally show ?thesis unfolding K_def T_def A_def N_def C_def .
qed

lemma key_present: "map_of kvs c = Some v \<Longrightarrow> c \<in> set (keys_of kvs)"
  by (auto simp: keys_of_def dest: map_of_SomeD intro: rev_image_eqI)

lemma predicate_combinator:
  assumes c: "c \<in> set combinator_keys" and m: "map_of kvs c = Some v"
    and v: "status (predicate p (Some (JObject kvs))) = Valid"
  shows "\<exists>arr. v = JArray arr \<and> arr \<noteq> []
           \<and> (\<forall>i j. i < j \<and> j < length arr \<longrightarrow> \<not> deep_equal (arr ! i) (arr ! j))"
proof -
  from m have k: "c \<in> set (keys_of kvs)" by (rule key_present)
  from v [unfolded predicate_object_status] k c
  have "status (refine_uniqueItems (z_array_min 1 predicate) (p @ [Key c]) (map_of kvs c)) = Valid"
    by (auto simp: comparison_keys_def combinator_keys_def)
  then have r: "status (refine_uniqueItems (z_array_min 1 predicate) (p @ [Key c]) (Some v)) = Valid"
    by (simp add: m)
  then obtain arr where a: "v = JArray arr" by (blast dest: status_combinator_array)
  from r have "status (z_array_min 1 predicate (p @ [Key c]) (Some (JArray arr))) = Valid"
    by (simp add: a refine_uniqueItems_def status_z_refine_Valid)
  then have "1 \<le> length arr" by (simp add: status_z_array_gen_Valid)
  then have "arr \<noteq> []" by auto
  moreover have "\<not> deep_equal (arr ! i) (arr ! j)" if "i < j" "j < length arr" for i j
    using r [unfolded a] that by (rule predicate_array_deep_equal)
  ultimately show ?thesis using a by blast
qed

lemma keys_apart:
  "k \<in> set comparison_keys \<Longrightarrow> k \<notin> set combinator_keys"
  "k \<in> set comparison_keys \<Longrightarrow> k \<noteq> ''not''"
  "k \<in> set comparison_keys \<Longrightarrow> k \<noteq> ''if''"
  "k \<in> set comparison_keys \<Longrightarrow> k \<noteq> ''then''"
  by (auto simp: comparison_keys_def combinator_keys_def)

lemma comparison_tuple_status:
  "status (z_tuple [rollOption, z_or rollOption (z_number [])] q (Some v)) = Valid
      \<longleftrightarrow> (\<exists>a b. v = JArray [JString a, b] \<and> regex_test rollOption_re a
          \<and> ((\<exists>s. b = JString s \<and> regex_test rollOption_re s) \<or> (\<exists>n. b = JNumber n)))"
proof
  assume "status (z_tuple [rollOption, z_or rollOption (z_number [])] q (Some v)) = Valid"
  then obtain a b where v: "v = JArray [a, b]"
    and a: "status (rollOption (q @ [Idx 0]) (Some a)) = Valid"
    and b: "status (z_or rollOption (z_number []) (q @ [Idx 1]) (Some b)) = Valid"
    unfolding status_z_tuple2_Valid by blast
  from a obtain s where "a = JString s" "regex_test rollOption_re s"
    unfolding status_rollOption_Valid by blast
  moreover from b have "(\<exists>s. b = JString s \<and> regex_test rollOption_re s) \<or> (\<exists>n. b = JNumber n)"
    unfolding status_comparand_Valid by blast
  ultimately show "\<exists>a b. v = JArray [JString a, b] \<and> regex_test rollOption_re a
          \<and> ((\<exists>s. b = JString s \<and> regex_test rollOption_re s) \<or> (\<exists>n. b = JNumber n))"
    using v by blast
next
  assume "\<exists>a b. v = JArray [JString a, b] \<and> regex_test rollOption_re a
          \<and> ((\<exists>s. b = JString s \<and> regex_test rollOption_re s) \<or> (\<exists>n. b = JNumber n))"
  then obtain a b where v: "v = JArray [JString a, b]" and a: "regex_test rollOption_re a"
    and b: "(\<exists>s. b = JString s \<and> regex_test rollOption_re s) \<or> (\<exists>n. b = JNumber n)"
    by blast
  from a have "status (rollOption (q @ [Idx 0]) (Some (JString a))) = Valid"
    unfolding status_rollOption_Valid by blast
  moreover from b have "status (z_or rollOption (z_number []) (q @ [Idx 1]) (Some b)) = Valid"
    unfolding status_comparand_Valid by blast
  ultimately show "status (z_tuple [rollOption, z_or rollOption (z_number [])] q (Some v)) = Valid"
    unfolding status_z_tuple2_Valid v by blast
qed

lemma predicate_comparison:
  assumes k: "k \<in> set comparison_keys" and m: "map_of kvs k = Some v"
  shows "status (predicate p (Some (JObject kvs))) = Valid \<longleftrightarrow>
     set (keys_of kvs) \<subseteq> {k}
     \<and> (\<exists>a b. v = JArray [JString a, b] \<and> regex_test rollOption_re a
          \<and> ((\<exists>s. b = JString s \<and> regex_test rollOption_re s) \<or> (\<exists>n. b = JNumber n)))"
proof -
  from m have kk: "k \<in> set (keys_of kvs)" by (rule key_present)
  let ?t = "\<lambda>k. status (z_tuple [rollOption, z_or rollOption (z_number [])] (p @ [Key k])
      (map_of kvs k)) = Valid"
  have "status (predicate p (Some (JObject kvs))) = Valid \<longleftrightarrow> set (keys_of kvs) \<subseteq> {k} \<and> ?t k"
  proof
    assume "status (predicate p (Some (JObject kvs))) = Valid"
    then consider (cmp) k' where "k' \<in> set comparison_keys" "set (keys_of kvs) \<subseteq> {k'}" "?t k'"
      | (arr) k' where "k' \<in> set combinator_keys" "set (keys_of kvs) \<subseteq> {k'}"
      | (neg) "set (keys_of kvs) \<subseteq> {''not''}"
      | (cond) "set (keys_of kvs) \<subseteq> {''if'', ''then''}"
      unfolding predicate_object_status by blast
    then show "set (keys_of kvs) \<subseteq> {k} \<and> ?t k"
    proof cases
      case cmp
      with kk have "k' = k" by blast
      with cmp show ?thesis by simp
    next
      case arr
      with kk have "k' = k" by blast
      with arr keys_apart(1) [OF k] show ?thesis by simp
    next
      case neg
      with kk have "k = ''not''" by blast
      with keys_apart(2) [OF k] show ?thesis by simp
    next
      case cond
      with kk have "k = ''if'' \<or> k = ''then''" by blast
      with keys_apart(3,4) [OF k] show ?thesis by blast
    qed
  next
    assume "set (keys_of kvs) \<subseteq> {k} \<and> ?t k"
    with k show "status (predicate p (Some (JObject kvs))) = Valid"
      unfolding predicate_object_status by blast
  qed
  then show ?thesis by (simp only: m comparison_tuple_status)
qed

subsection \<open>The levels of the token-images schema\<close>

lemma tokenImages_pieces:
  "tokenImages =
     z_object Strip [(''_tokenImages'', refine_uniqueItems (z_array_min 1 tokenImage_entry))]"
  by (simp add: tokenImages_def tokenImage_entry_def tokenImage_rule_def tokenImage_rule_shape_def
      tokenImage_ring_def tokenImage_colors_def tokenImage_subject_def tokenImage_animation_def)

lemma strict_object_Valid:
  assumes "status (z_object Strict sh q v) = Valid"
  shows "\<exists>kvs. v = Some (JObject kvs) \<and> set (keys_of kvs) \<subseteq> set (map fst sh)
           \<and> (\<forall>(k, s) \<in> set sh. status (s (q @ [Key k]) (map_of kvs k)) = Valid)"
proof (cases "\<exists>kvs. v = Some (JObject kvs)")
  case True
  with assms show ?thesis by (auto simp: status_z_object_Valid)
next
  case False
  then have "z_object Strict sh q v = invalid_type_at q ''object'' v"
    by (intro z_object_other) simp
  with assms show ?thesis by simp
qed

lemma nonEmpty_object_known_keys:
  assumes "status (refine_nonEmpty (z_object Strict sh) q v) = Valid"
  shows "known_keys (map fst sh) v"
proof -
  from assms have "status (z_object Strict sh q v) = Valid"
    by (simp add: refine_nonEmpty_def status_z_refine_Valid)
  then show ?thesis by (auto simp: known_keys_def dest: strict_object_Valid)
qed

lemma unique_array_Valid:
  assumes "status (refine_uniqueItems (z_array_gen mn el) q v) = Valid"
  shows "\<exists>xs. v = Some (JArray xs) \<and> (case mn of Some n \<Rightarrow> n \<le> length xs | None \<Rightarrow> True)
           \<and> (\<forall>i < length xs. status (el (q @ [Idx i]) (Some (xs ! i))) = Valid)"
proof -
  from assms have a: "status (z_array_gen mn el q v) = Valid"
    by (simp add: refine_uniqueItems_def status_z_refine_Valid)
  have "\<exists>xs. v = Some (JArray xs)"
  proof (rule ccontr)
    assume "\<nexists>xs. v = Some (JArray xs)"
    then have "status (z_array_gen mn el q v) = Aborted" by (simp add: status_z_array_gen_not_array)
    with a show False by simp
  qed
  then obtain xs where v: "v = Some (JArray xs)" by blast
  with a show ?thesis by (simp add: status_z_array_gen_Valid)
qed

lemma ring_closed:
  assumes "status (tokenImage_ring q v) = Valid"
  shows "closed_ring v"
proof -
  from assms have "status (z_object Strict
       [(''subject'', tokenImage_subject), (''colors'', z_optional tokenImage_colors)] q v) = Valid"
    by (simp add: tokenImage_ring_def refine_nonEmpty_def status_z_refine_Valid)
  then obtain kvs where v: "v = Some (JObject kvs)"
    and k: "set (keys_of kvs) \<subseteq> set [''subject'', ''colors'']"
    and s: "status (tokenImage_subject (q @ [Key ''subject'']) (map_of kvs ''subject'')) = Valid"
    and c: "status (z_optional tokenImage_colors (q @ [Key ''colors'']) (map_of kvs ''colors''))
        = Valid"
    by (auto dest!: strict_object_Valid)
  from s have "known_keys [''texture'', ''scale''] (map_of kvs ''subject'')"
    unfolding tokenImage_subject_def by (auto dest: nonEmpty_object_known_keys)
  moreover have "map_of kvs ''colors'' = None
      \<or> known_keys [''background'', ''ring''] (map_of kvs ''colors'')"
  proof (cases "map_of kvs ''colors''")
    case (Some w)
    with c have "status (tokenImage_colors (q @ [Key ''colors'']) (map_of kvs ''colors'')) = Valid"
      by simp
    then show ?thesis unfolding tokenImage_colors_def by (auto dest: nonEmpty_object_known_keys)
  qed simp
  ultimately show ?thesis using k by (simp add: closed_ring_def v)
qed

lemma rule_closed:
  assumes "status (tokenImage_rule q (Some r)) = Valid"
  shows "closed_rule r"
proof -
  from assms consider
    (tuple) "status (z_tuple [slug, filePath, z_number [positive], z_optional filePath,
          z_optional (z_number [positive])] q (Some r)) = Valid"
    | (object) "status (z_object Strict tokenImage_rule_shape q (Some r)) = Valid"
    unfolding tokenImage_rule_def status_z_or_Valid by blast
  then show ?thesis
  proof cases
    case tuple
    have "\<exists>xs. r = JArray xs"
    proof (rule ccontr)
      assume "\<nexists>xs. r = JArray xs"
      then have "z_tuple [slug, filePath, z_number [positive], z_optional filePath,
          z_optional (z_number [positive])] q (Some r) = invalid_type_at q ''array'' (Some r)"
        by (intro z_tuple_other) simp
      with tuple show False by simp
    qed
    then show ?thesis by (auto simp: closed_rule_def)
  next
    case object
    then obtain kvs where r: "r = JObject kvs"
      and k: "set (keys_of kvs) \<subseteq> set (map fst tokenImage_rule_shape)"
      and f: "\<forall>(k, s) \<in> set tokenImage_rule_shape. status (s (q @ [Key k]) (map_of kvs k)) = Valid"
      by (auto dest!: strict_object_Valid)
    from f have a: "status (tokenImage_animation (q @ [Key ''animation'']) (map_of kvs ''animation''))
        = Valid"
      and g: "status (z_optional tokenImage_ring (q @ [Key ''ring'']) (map_of kvs ''ring'')) = Valid"
      by (simp_all add: tokenImage_rule_shape_def)
    from a have "known_keys [''duration'', ''transition'', ''easing'', ''name'']
        (map_of kvs ''animation'')"
      unfolding tokenImage_animation_def by (auto dest: nonEmpty_object_known_keys)
    moreover have "map_of kvs ''ring'' = None \<or> closed_ring (map_of kvs ''ring'')"
    proof (cases "map_of kvs ''ring''")
      case (Some w)
      with g have "status (tokenImage_ring (q @ [Key ''ring'']) (map_of kvs ''ring'')) = Valid"
        by simp
      then show ?thesis by (auto dest: ring_closed)
    qed simp
    moreover from k have "set (keys_of kvs)
            \<subseteq> set [''key'', ''label'', ''slug'', ''predicate'', ''priority'', ''ignored'',
                    ''requiresInvestment'', ''requiresEquipped'', ''removeUponCreate'', ''value'',
                    ''scale'', ''tint'', ''alpha'', ''animation'', ''ring'']"
      by (simp add: tokenImage_rule_shape_def)
    ultimately show ?thesis by (simp add: closed_rule_def r)
  qed
qed

lemma entry_closed:
  assumes "status (tokenImage_entry q (Some e)) = Valid"
  shows "closed_entry e"
proof -
  from assms obtain kvs where e: "e = JObject kvs"
    and k: "set (keys_of kvs) \<subseteq> set [''name'', ''requires'', ''uuid'', ''rules'']"
    and r: "status (refine_uniqueItems (z_array_min 1 tokenImage_rule) (q @ [Key ''rules''])
        (map_of kvs ''rules'')) = Valid"
    unfolding tokenImage_entry_def by (auto dest!: strict_object_Valid)
  from unique_array_Valid [OF r] obtain rules where m: "map_of kvs ''rules'' = Some (JArray rules)"
    and n: "1 \<le> length rules"
    and v: "\<forall>i < length rules. status (tokenImage_rule (q @ [Key ''rules''] @ [Idx i])
        (Some (rules ! i))) = Valid"
    by auto
  from v have "\<forall>i < length rules. closed_rule (rules ! i)" by (blast dest: rule_closed)
  then have "list_all closed_rule rules" by (simp add: list_all_length)
  moreover from n have "rules \<noteq> []" by auto
  ultimately show ?thesis using k by (simp add: closed_entry_def e m)
qed

lemma tokenImages_closed:
  assumes "status (tokenImages p (Some (JObject kvs))) = Valid"
  shows "\<exists>entries. map_of kvs ''_tokenImages'' = Some (JArray entries) \<and> entries \<noteq> []
           \<and> list_all closed_entry entries"
proof -
  from assms have r: "status (refine_uniqueItems (z_array_min 1 tokenImage_entry)
      (p @ [Key ''_tokenImages'']) (map_of kvs ''_tokenImages'')) = Valid"
    unfolding tokenImages_pieces by (simp add: status_z_object_Valid)
  from unique_array_Valid [OF r] obtain entries
    where m: "map_of kvs ''_tokenImages'' = Some (JArray entries)"
    and n: "1 \<le> length entries"
    and v: "\<forall>i < length entries. status (tokenImage_entry (p @ [Key ''_tokenImages''] @ [Idx i])
        (Some (entries ! i))) = Valid"
    by auto
  from v have "\<forall>i < length entries. closed_entry (entries ! i)" by (blast dest: entry_closed)
  then have "list_all closed_entry entries" by (simp add: list_all_length)
  moreover from n have "entries \<noteq> []" by auto
  ultimately show ?thesis using m by simp
qed

section \<open>Deep-equal inputs are parsed alike\<close>

text \<open>
  Deep equality of two properties, either of which may be absent, and the invariant that a
  schema gives deep-equal inputs the same status and the same value, at whatever paths
  (\<open>rde\<close>); it is used in proofs only. A \<open>primitive\<close> value is one that is no array and no
  object.
\<close>

definition deep_equal_opt :: "json option \<Rightarrow> json option \<Rightarrow> bool" where
  "deep_equal_opt a b =
     (case a of
        None \<Rightarrow> b = None
      | Some x \<Rightarrow> (case b of None \<Rightarrow> False | Some y \<Rightarrow> deep_equal x y))"

definition rde :: "schema \<Rightarrow> json option \<Rightarrow> bool" where
  "rde s a \<longleftrightarrow> (\<forall>b p q. deep_equal_opt a b \<longrightarrow> same (s p a) (s q b))"

fun primitive :: "json \<Rightarrow> bool" where
  "primitive (JArray xs) = False"
| "primitive (JObject kvs) = False"
| "primitive v = True"

lemma rdeI: "(\<And>b p q. deep_equal_opt a b \<Longrightarrow> same (s p a) (s q b)) \<Longrightarrow> rde s a"
  by (simp add: rde_def)

lemma rdeD: "rde s a \<Longrightarrow> deep_equal_opt a b \<Longrightarrow> same (s p a) (s q b)"
  by (simp add: rde_def)

lemma deep_equal_opt_None [simp]: "deep_equal_opt None b \<longleftrightarrow> b = None"
  by (simp add: deep_equal_opt_def)

lemma deep_equal_opt_Some:
  "deep_equal_opt (Some x) b \<longleftrightarrow> (\<exists>y. b = Some y \<and> deep_equal x y)"
  by (cases b) (simp_all add: deep_equal_opt_def)

lemma deep_equal_primitive: "primitive x \<Longrightarrow> deep_equal x y \<longleftrightarrow> y = x"
  by (cases x) simp_all

lemma deep_equal_array:
  "deep_equal (JArray xs) y \<longleftrightarrow> (\<exists>ys. y = JArray ys \<and> list_all2 deep_equal xs ys)"
  by (cases y) simp_all

lemma deep_equal_object:
  "deep_equal (JObject kvs) y \<longleftrightarrow>
     (\<exists>kvs'. y = JObject kvs' \<and> (\<forall>k. deep_equal_opt (map_of kvs k) (map_of kvs' k)))"
proof (cases y)
  case (JObject kvs')
  have c: "(case (map_of kvs k, map_of kvs' k) of
          (Some v, Some v') \<Rightarrow> deep_equal v v'
        | (None, None) \<Rightarrow> True
        | _ \<Rightarrow> False) = deep_equal_opt (map_of kvs k) (map_of kvs' k)" for k
    by (simp add: deep_equal_opt_def split: option.splits)
  have o: "deep_equal_opt (map_of kvs k) (map_of kvs' k)"
    if "k \<notin> set (map fst kvs @ map fst kvs')" for k
  proof -
    from that have "map_of kvs k = None" "map_of kvs' k = None"
      by (simp_all add: map_of_eq_None_iff)
    then show ?thesis by simp
  qed
  have "(\<forall>k \<in> set (map fst kvs @ map fst kvs'). deep_equal_opt (map_of kvs k) (map_of kvs' k))
     \<longleftrightarrow> (\<forall>k. deep_equal_opt (map_of kvs k) (map_of kvs' k))"
    using o by blast
  then show ?thesis unfolding JObject deep_equal.simps c by simp
qed simp_all

lemma deep_equal_opt_keys:
  assumes "\<forall>k. deep_equal_opt (map_of kvs k) (map_of kvs' k)"
  shows "set (keys_of kvs) = set (keys_of kvs')"
proof -
  have "k \<in> set (keys_of kvs) \<longleftrightarrow> k \<in> set (keys_of kvs')" for k
  proof -
    have "k \<in> set (keys_of kvs) \<longleftrightarrow> map_of kvs k \<noteq> None"
      by (simp add: keys_of_def map_of_eq_None_iff)
    also have "\<dots> \<longleftrightarrow> map_of kvs' k \<noteq> None"
      using assms [rule_format, of k] by (auto simp: deep_equal_opt_def split: option.splits)
    also have "\<dots> \<longleftrightarrow> k \<in> set (keys_of kvs')"
      by (simp add: keys_of_def map_of_eq_None_iff)
    finally show ?thesis .
  qed
  then show ?thesis by blast
qed

lemma rde_leaf:
  assumes w: "\<And>inp. wb s inp"
    and arr: "\<And>p xs. s p (Some (JArray xs)) = invalid_type_at p e (Some (JArray xs))"
    and obj: "\<And>p kvs. s p (Some (JObject kvs)) = invalid_type_at p e (Some (JObject kvs))"
  shows "rde s a"
proof (rule rdeI)
  fix b p q assume d: "deep_equal_opt a b"
  show "same (s p a) (s q b)"
  proof (cases a)
    case None
    with d have "b = a" by simp
    then show ?thesis by (simp add: wb_same [OF w])
  next
    case (Some x)
    with d obtain y where b: "b = Some y" and e: "deep_equal x y"
      by (auto simp: deep_equal_opt_Some)
    show ?thesis
    proof (cases "primitive x")
      case True
      with e have "y = x" by (simp add: deep_equal_primitive)
      then show ?thesis by (simp add: Some b wb_same [OF w])
    next
      case False
      then consider xs where "x = JArray xs" | kvs where "x = JObject kvs" by (cases x) auto
      then show ?thesis
      proof cases
        case 1
        with e obtain ys where "y = JArray ys" by (auto simp: deep_equal_array)
        with 1 show ?thesis by (simp add: Some b arr same_def)
      next
        case 2
        with e obtain kvs' where "y = JObject kvs'" by (auto simp: deep_equal_object)
        with 2 show ?thesis by (simp add: Some b obj same_def)
      qed
    qed
  qed
qed

lemma rde_z_string: "rde (z_string cs) inp"
  by (rule rde_leaf [where e = "''string''"]) (simp_all add: wb_z_string z_string_def)

lemma rde_z_number: "rde (z_number cs) inp"
  by (rule rde_leaf [where e = "''number''"]) (simp_all add: wb_z_number z_number_def)

lemma rde_z_boolean: "rde z_boolean inp"
  by (rule rde_leaf [where e = "''boolean''"]) (simp_all add: wb_z_boolean z_boolean_def)

lemma rde_z_null: "rde z_null inp"
  by (rule rde_leaf [where e = "''null''"]) (simp_all add: wb_z_null z_null_def)

lemma rde_z_undefined: "rde z_undefined inp"
  by (rule rde_leaf [where e = "''undefined''"]) (simp_all add: wb_z_undefined z_undefined_def)

lemma rde_z_literal: "primitive v \<Longrightarrow> rde (z_literal v) inp"
proof (rule rdeI)
  fix b p q assume v: "primitive v" and d: "deep_equal_opt inp b"
  have "inp = Some v \<longleftrightarrow> b = Some v"
  proof (cases inp)
    case None
    with d show ?thesis by simp
  next
    case (Some x)
    with d obtain y where b: "b = Some y" and e: "deep_equal x y"
      by (auto simp: deep_equal_opt_Some)
    show ?thesis
    proof (cases "primitive x")
      case True
      with e show ?thesis by (simp add: Some b deep_equal_primitive)
    next
      case False
      then consider xs where "x = JArray xs" | kvs where "x = JObject kvs" by (cases x) auto
      then show ?thesis
      proof cases
        case 1
        with e obtain ys where "y = JArray ys" by (auto simp: deep_equal_array)
        with 1 v show ?thesis by (auto simp: Some b)
      next
        case 2
        with e obtain kvs' where "y = JObject kvs'" by (auto simp: deep_equal_object)
        with 2 v show ?thesis by (auto simp: Some b)
      qed
    qed
  qed
  then show "same (z_literal v p inp) (z_literal v q b)"
    by (auto simp: z_literal_def same_def)
qed

lemma rde_z_enum: "rde (z_enum opts) inp"
proof (rule rdeI)
  fix b p q assume d: "deep_equal_opt inp b"
  show "same (z_enum opts p inp) (z_enum opts q b)"
  proof (cases "\<exists>s. inp = Some (JString s)")
    case True
    then obtain s where "inp = Some (JString s)" by blast
    with d have "b = inp" by (auto simp: deep_equal_opt_Some)
    then show ?thesis by (simp add: wb_same [OF wb_z_enum])
  next
    case False
    have "\<nexists>s. b = Some (JString s)"
    proof
      assume "\<exists>s. b = Some (JString s)"
      then obtain s where b: "b = Some (JString s)" by blast
      with d obtain x where "inp = Some x" "deep_equal x (JString s)"
        by (cases inp) (auto simp: deep_equal_opt_Some)
      then have "inp = Some (JString s)" by (cases x) simp_all
      with False show False by blast
    qed
    with False show ?thesis
      by (auto simp: z_enum_def same_def split: option.splits json.splits)
  qed
qed

lemma rde_z_optional: "(inp \<noteq> None \<Longrightarrow> rde s inp) \<Longrightarrow> rde (z_optional s) inp"
proof (rule rdeI)
  fix b p q assume r: "inp \<noteq> None \<Longrightarrow> rde s inp" and d: "deep_equal_opt inp b"
  show "same (z_optional s p inp) (z_optional s q b)"
  proof (cases inp)
    case None
    with d show ?thesis by simp
  next
    case (Some x)
    with d obtain y where b: "b = Some y" by (auto simp: deep_equal_opt_Some)
    from r Some have "rde s inp" by simp
    from rdeD [OF this d, of p q] show ?thesis by (simp add: Some b)
  qed
qed

lemma rde_z_lazy: "rde (g ()) inp \<Longrightarrow> rde (z_lazy g) inp"
  by (simp add: rde_def z_lazy_def)

lemma rde_z_refine: "rde s inp \<Longrightarrow> rde (z_refine c rel m s) inp"
proof (rule rdeI)
  fix b p q assume "rde s inp" "deep_equal_opt inp b"
  then have "same (s p inp) (s q b)" by (rule rdeD)
  then show "same (z_refine c rel m s p inp) (z_refine c rel m s q b)"
    by (auto simp: z_refine_def same_def Let_def)
qed

lemma rde_refine_nonZero: "rde s inp \<Longrightarrow> rde (refine_nonZero s) inp"
  by (simp add: refine_nonZero_def rde_z_refine)

lemma rde_refine_nonEmpty: "rde s inp \<Longrightarrow> rde (refine_nonEmpty s) inp"
  by (simp add: refine_nonEmpty_def rde_z_refine)

lemma rde_refine_uniqueItems: "rde s inp \<Longrightarrow> rde (refine_uniqueItems s) inp"
  by (simp add: refine_uniqueItems_def rde_z_refine)

lemma rde_z_superRefine: "rde s inp \<Longrightarrow> rde (z_superRefine f s) inp"
proof (rule rdeI)
  fix b p q assume "rde s inp" "deep_equal_opt inp b"
  then have "same (s p inp) (s q b)" by (rule rdeD)
  then show "same (z_superRefine f s p inp) (z_superRefine f s q b)"
    by (auto simp: z_superRefine_def same_def Let_def merge_status_def)
qed

lemma list_all2_same_nth:
  assumes "length xs = length ys"
    and "\<And>i. i < length xs \<Longrightarrow> same (f i (xs ! i)) (g i (ys ! i))"
  shows "list_all2 same (map (\<lambda>(i, x). f i x) (enumerate 0 xs))
                        (map (\<lambda>(i, y). g i y) (enumerate 0 ys))"
  using assms by (simp add: list_all2_conv_all_nth nth_enumerate_eq)

lemma rde_z_array_gen:
  assumes "\<And>xs x. inp = Some (JArray xs) \<Longrightarrow> x \<in> set xs \<Longrightarrow> rde el (Some x)"
  shows "rde (z_array_gen mn el) inp"
proof (rule rdeI)
  fix b p q assume d: "deep_equal_opt inp b"
  show "same (z_array_gen mn el p inp) (z_array_gen mn el q b)"
  proof (cases "\<exists>xs. inp = Some (JArray xs)")
    case True
    then obtain xs where inp: "inp = Some (JArray xs)" by blast
    with d obtain ys where b: "b = Some (JArray ys)" and l: "list_all2 deep_equal xs ys"
      by (auto simp: deep_equal_opt_Some deep_equal_array)
    from l have len: "length xs = length ys" by (rule list_all2_lengthD)
    have "list_all2 same (map (\<lambda>(i, x). el (p @ [Idx i]) (Some x)) (enumerate 0 xs))
                         (map (\<lambda>(i, y). el (q @ [Idx i]) (Some y)) (enumerate 0 ys))"
    proof (rule list_all2_same_nth [OF len])
      fix i assume i: "i < length xs"
      then have "rde el (Some (xs ! i))" by (intro assms [OF inp]) simp
      moreover from l i have "deep_equal (xs ! i) (ys ! i)" by (rule list_all2_nthD)
      ultimately show "same (el (p @ [Idx i]) (Some (xs ! i))) (el (q @ [Idx i]) (Some (ys ! i)))"
        by (intro rdeD) (simp_all add: deep_equal_opt_Some)
    qed
    from same_mergeArray [OF this] show ?thesis
      unfolding inp b z_array_gen_array len .
  next
    case False
    have "\<nexists>ys. b = Some (JArray ys)"
    proof
      assume "\<exists>ys. b = Some (JArray ys)"
      then obtain ys where b: "b = Some (JArray ys)" by blast
      with d obtain x where "inp = Some x" "deep_equal x (JArray ys)"
        by (cases inp) (auto simp: deep_equal_opt_Some)
      then have "\<exists>xs. inp = Some (JArray xs)" by (cases x) simp_all
      with False show False by blast
    qed
    with False show ?thesis by (simp add: z_array_gen_other same_def)
  qed
qed

lemma not_array_deep_equal:
  assumes d: "deep_equal_opt inp b" and n: "\<nexists>xs. inp = Some (JArray xs)"
  shows "\<nexists>ys. b = Some (JArray ys)"
proof
  assume "\<exists>ys. b = Some (JArray ys)"
  then obtain ys where b: "b = Some (JArray ys)" by blast
  with d obtain x where "inp = Some x" "deep_equal x (JArray ys)"
    by (cases inp) (auto simp: deep_equal_opt_Some)
  then have "\<exists>xs. inp = Some (JArray xs)" by (cases x) simp_all
  with n show False by blast
qed

lemma not_object_deep_equal:
  assumes d: "deep_equal_opt inp b" and n: "\<nexists>kvs. inp = Some (JObject kvs)"
  shows "\<nexists>kvs'. b = Some (JObject kvs')"
proof
  assume "\<exists>kvs'. b = Some (JObject kvs')"
  then obtain kvs' where b: "b = Some (JObject kvs')" by blast
  with d obtain x where "inp = Some x" "deep_equal x (JObject kvs')"
    by (cases inp) (auto simp: deep_equal_opt_Some)
  then have "\<exists>kvs. inp = Some (JObject kvs)" by (cases x) simp_all
  with n show False by blast
qed

lemma rde_z_tuple:
  assumes "\<And>s v. s \<in> set items \<Longrightarrow> rde s v"
  shows "rde (z_tuple items) inp"
proof (rule rdeI)
  fix b p q assume d: "deep_equal_opt inp b"
  show "same (z_tuple items p inp) (z_tuple items q b)"
  proof (cases "\<exists>xs. inp = Some (JArray xs)")
    case True
    then obtain xs where inp: "inp = Some (JArray xs)" by blast
    with d obtain ys where b: "b = Some (JArray ys)" and l: "list_all2 deep_equal xs ys"
      by (auto simp: deep_equal_opt_Some deep_equal_array)
    from l have len: "length xs = length ys" by (rule list_all2_lengthD)
    have "list_all2 same (map (\<lambda>(i, s, x). s (p @ [Idx i]) (Some x)) (enumerate 0 (zip items xs)))
                         (map (\<lambda>(i, s, y). s (q @ [Idx i]) (Some y)) (enumerate 0 (zip items ys)))"
      unfolding list_all2_conv_all_nth
    proof (intro conjI allI impI)
      show "length (map (\<lambda>(i, s, x). s (p @ [Idx i]) (Some x)) (enumerate 0 (zip items xs)))
          = length (map (\<lambda>(i, s, y). s (q @ [Idx i]) (Some y)) (enumerate 0 (zip items ys)))"
        by (simp add: len)
    next
      fix i assume "i < length (map (\<lambda>(i, s, x). s (p @ [Idx i]) (Some x)) (enumerate 0 (zip items xs)))"
      then have i: "i < length items" "i < length xs" "i < length ys" by (simp_all add: len)
      then have "rde (items ! i) (Some (xs ! i))" by (intro assms) simp
      moreover from l i(2) have "deep_equal (xs ! i) (ys ! i)" by (rule list_all2_nthD)
      ultimately have "same ((items ! i) (p @ [Idx i]) (Some (xs ! i)))
          ((items ! i) (q @ [Idx i]) (Some (ys ! i)))"
        by (intro rdeD) (simp_all add: deep_equal_opt_Some)
      with i show "same (map (\<lambda>(i, s, x). s (p @ [Idx i]) (Some x)) (enumerate 0 (zip items xs)) ! i)
          (map (\<lambda>(i, s, y). s (q @ [Idx i]) (Some y)) (enumerate 0 (zip items ys)) ! i)"
        by (simp add: nth_enumerate_eq)
    qed
    from same_mergeArray [OF this] show ?thesis
      unfolding inp b z_tuple_array len by (simp del: status_mergeArray)
  next
    case False
    with d have "\<nexists>ys. b = Some (JArray ys)" by (rule not_array_deep_equal)
    with False show ?thesis by (simp add: z_tuple_other same_def)
  qed
qed

lemma same_mergeObject_keys:
  assumes l: "list_all2 (\<lambda>a b. fst a = fst b \<and> same (snd a) (snd b)) pairs pairs'"
    and k: "set (keys_of kvs) = set (keys_of kvs')"
  shows "same (mergeObject uk p kvs pairs) (mergeObject uk q kvs' pairs')"
proof -
  from pairs_same_maps [OF l]
  have f: "map fst pairs = map fst pairs'"
    and s: "map (\<lambda>(k, r). status r) pairs = map (\<lambda>(k, r). status r) pairs'"
    and v: "List.map_filter (\<lambda>(k, r). map_option (Pair k) (parsed r)) pairs
          = List.map_filter (\<lambda>(k, r). map_option (Pair k) (parsed r)) pairs'"
    by auto
  from f k have e: "extra_keys kvs pairs \<noteq> [] \<longleftrightarrow> extra_keys kvs' pairs' \<noteq> []"
    by (simp add: extra_keys_empty)
  have st: "status (mergeObject uk p kvs pairs) = status (mergeObject uk q kvs' pairs')"
    by (simp only: status_mergeObject e s)
  show ?thesis unfolding same_def parsed_mergeObject st v by simp
qed

lemma rde_z_object_at:
  assumes "\<And>kvs k s. inp = Some (JObject kvs) \<Longrightarrow> (k, s) \<in> set sh \<Longrightarrow> rde s (map_of kvs k)"
  shows "rde (z_object uk sh) inp"
proof (rule rdeI)
  fix b p q assume d: "deep_equal_opt inp b"
  show "same (z_object uk sh p inp) (z_object uk sh q b)"
  proof (cases "\<exists>kvs. inp = Some (JObject kvs)")
    case True
    then obtain kvs where inp: "inp = Some (JObject kvs)" by blast
    with d obtain kvs' where b: "b = Some (JObject kvs')"
      and m: "\<forall>k. deep_equal_opt (map_of kvs k) (map_of kvs' k)"
      by (auto simp: deep_equal_opt_Some deep_equal_object)
    have "list_all2 (\<lambda>a b. fst a = fst b \<and> same (snd a) (snd b))
            (map (\<lambda>(k, s). (k, s (p @ [Key k]) (map_of kvs k))) sh)
            (map (\<lambda>(k, s). (k, s (q @ [Key k]) (map_of kvs' k))) sh)"
      unfolding list_all2_map1 list_all2_map2
    proof (rule list_all2_same [THEN iffD2], rule ballI)
      fix y assume "y \<in> set sh"
      then have "rde (snd y) (map_of kvs (fst y))" using assms [OF inp, of "fst y" "snd y"] by simp
      from rdeD [OF this m [rule_format], of "p @ [Key (fst y)]" "q @ [Key (fst y)]"]
      show "fst (case y of (k, s) \<Rightarrow> (k, s (p @ [Key k]) (map_of kvs k))) =
                 fst (case y of (k, s) \<Rightarrow> (k, s (q @ [Key k]) (map_of kvs' k))) \<and>
                 same (snd (case y of (k, s) \<Rightarrow> (k, s (p @ [Key k]) (map_of kvs k))))
                      (snd (case y of (k, s) \<Rightarrow> (k, s (q @ [Key k]) (map_of kvs' k))))"
        by (simp add: case_prod_beta)
    qed
    then show ?thesis
      unfolding inp b z_object_object
      by (rule same_mergeObject_keys) (rule deep_equal_opt_keys [OF m])
  next
    case False
    with d have "\<nexists>kvs'. b = Some (JObject kvs')" by (rule not_object_deep_equal)
    with False show ?thesis by (simp add: z_object_other same_def)
  qed
qed

lemma rde_z_object:
  assumes "\<And>k s v. (k, s) \<in> set sh \<Longrightarrow> rde s v"
  shows "rde (z_object uk sh) inp"
  by (rule rde_z_object_at) (rule assms)

lemma rde_z_union:
  assumes "\<And>s. s \<in> set ss \<Longrightarrow> rde s inp"
  shows "rde (z_union ss) inp"
proof (rule rdeI)
  fix b p q assume d: "deep_equal_opt inp b"
  have "list_all2 same (map (\<lambda>s. s p inp) ss) (map (\<lambda>s. s q b) ss)"
    unfolding list_all2_map1 list_all2_map2
    by (rule list_all2_same [THEN iffD2]) (auto intro: rdeD [OF assms d])
  then show "same (z_union ss p inp) (z_union ss q b)"
    unfolding z_union_def by (rule same_union_merge)
qed

lemma rde_z_or: "rde a inp \<Longrightarrow> rde b inp \<Longrightarrow> rde (z_or a b) inp"
  unfolding z_or_def by (rule rde_z_union) auto

lemma rde_z_discriminatedUnion:
  assumes "\<And>t s. (t, s) \<in> set options \<Longrightarrow> rde s inp"
  shows "rde (z_discriminatedUnion d options) inp"
proof (rule rdeI)
  fix b p q assume e: "deep_equal_opt inp b"
  show "same (z_discriminatedUnion d options p inp) (z_discriminatedUnion d options q b)"
  proof (cases "\<exists>kvs. inp = Some (JObject kvs)")
    case True
    then obtain kvs where inp: "inp = Some (JObject kvs)" by blast
    with e obtain kvs' where b: "b = Some (JObject kvs')"
      and m: "\<forall>k. deep_equal_opt (map_of kvs k) (map_of kvs' k)"
      by (auto simp: deep_equal_opt_Some deep_equal_object)
    from m have dd: "deep_equal_opt (map_of kvs d) (map_of kvs' d)" by simp
    show ?thesis
    proof (cases "\<exists>t. map_of kvs d = Some (JString t)")
      case True
      then obtain t where t: "map_of kvs d = Some (JString t)" by blast
      with dd have t': "map_of kvs' d = Some (JString t)" by (auto simp: deep_equal_opt_Some)
      show ?thesis
      proof (cases "map_of options t")
        case None
        with t t' show ?thesis by (simp add: z_discriminatedUnion_def inp b)
      next
        case (Some s)
        then have "(t, s) \<in> set options" by (rule map_of_SomeD)
        then have "rde s inp" by (rule assms)
        from rdeD [OF this e, of p q] Some t t' show ?thesis
          by (simp add: z_discriminatedUnion_def inp b)
      qed
    next
      case False
      have "\<nexists>t. map_of kvs' d = Some (JString t)"
      proof
        assume "\<exists>t. map_of kvs' d = Some (JString t)"
        then obtain t where t: "map_of kvs' d = Some (JString t)" by blast
        with dd obtain x where "map_of kvs d = Some x" "deep_equal x (JString t)"
          by (cases "map_of kvs d") (auto simp: deep_equal_opt_Some)
        then have "map_of kvs d = Some (JString t)" by (cases x) simp_all
        with False show False by blast
      qed
      with False show ?thesis
        by (auto simp: z_discriminatedUnion_def inp b split: option.splits json.splits)
    qed
  next
    case False
    with e have "\<nexists>kvs'. b = Some (JObject kvs')" by (rule not_object_deep_equal)
    with False show ?thesis
      by (auto simp: z_discriminatedUnion_def same_def split: option.splits json.splits)
  qed
qed

subsection \<open>The schemas of the source\<close>

named_theorems rde_intros

lemmas [rde_intros] = rde_z_string rde_z_number rde_z_boolean rde_z_null rde_z_undefined
  rde_z_literal rde_z_enum rde_z_optional rde_z_lazy rde_z_refine rde_refine_nonZero
  rde_refine_nonEmpty rde_refine_uniqueItems rde_z_superRefine rde_z_array_gen rde_z_tuple
  rde_z_object rde_z_union rde_z_or rde_z_discriminatedUnion

lemma rde_JSONValue [rde_intros]: "rde JSONValue inp"
  unfolding JSONValue_def by (auto intro!: rde_intros)

lemma rde_slug [rde_intros]: "rde slug inp"
  unfolding slug_def by (intro rde_intros)

lemma rde_rollOption [rde_intros]: "rde rollOption inp"
  unfolding rollOption_def by (intro rde_intros)

lemma rde_comparison [rde_intros]: "rde (comparison k) inp"
  unfolding comparison_def by (intro rde_intros) (auto intro!: rde_intros)

lemma rde_predicate [rde_intros]: "rde predicate inp"
proof -
  have "rde predicate inp" for p :: "path_elem list"
  proof (induction p inp rule: predicate.induct)
    case (1 p inp)
    have arr: "rde (z_object Strict [(k, z_lazy (\<lambda>_. refine_uniqueItems (z_array_min 1 predicate)))]) inp"
      if IH: "\<And>kvs xs x. inp = Some (JObject kvs) \<Longrightarrow> map_of kvs k = Some (JArray xs) \<Longrightarrow> x \<in> set xs
                \<Longrightarrow> rde predicate (Some x)"
      for k
    proof (rule rde_z_object_at)
      fix kvs k' s
      assume inp: "inp = Some (JObject kvs)"
        and "(k', s) \<in> set [(k, z_lazy (\<lambda>_. refine_uniqueItems (z_array_min 1 predicate)))]"
      then have k: "k' = k" and s: "s = z_lazy (\<lambda>_. refine_uniqueItems (z_array_min 1 predicate))"
        by simp_all
      show "rde s (map_of kvs k')"
        unfolding k s
        by (intro rde_z_lazy rde_refine_uniqueItems rde_z_array_gen) (rule IH [OF inp])
    qed
    have one: "rde (z_lazy (\<lambda>_. predicate)) (map_of kvs k)"
      if "rde predicate (map_of kvs k)" for kvs k
      using that by (rule rde_z_lazy)
    have neg: "rde (z_object Strict [(''not'', z_lazy (\<lambda>_. predicate))]) inp"
    proof (rule rde_z_object_at)
      fix kvs k' s
      assume inp: "inp = Some (JObject kvs)" and "(k', s) \<in> set [(''not'', z_lazy (\<lambda>_. predicate))]"
      then have k: "k' = ''not''" and s: "s = z_lazy (\<lambda>_. predicate)" by simp_all
      show "rde s (map_of kvs k')" unfolding k s by (rule one) (rule "1.IH"(4) [OF inp])
    qed
    have cond: "rde (z_object Strict
                     [(''if'', z_lazy (\<lambda>_. predicate)), (''then'', z_lazy (\<lambda>_. predicate))]) inp"
    proof (rule rde_z_object_at)
      fix kvs k' s
      assume inp: "inp = Some (JObject kvs)"
        and "(k', s) \<in> set [(''if'', z_lazy (\<lambda>_. predicate)), (''then'', z_lazy (\<lambda>_. predicate))]"
      then have "(k' = ''if'' \<or> k' = ''then'') \<and> s = z_lazy (\<lambda>_. predicate)" by auto
      then show "rde s (map_of kvs k')"
        using one [OF "1.IH"(7) [OF inp]] one [OF "1.IH"(8) [OF inp]] by auto
    qed
    show ?case
      apply (subst predicate_unfold)
      apply (rule rde_z_union)
      using rde_rollOption [of inp] rde_comparison [unfolded comparison_def, of _ inp]
        arr [OF "1.IH"(1)] arr [OF "1.IH"(2)] arr [OF "1.IH"(3)] neg arr [OF "1.IH"(5)]
        arr [OF "1.IH"(6)] cond arr [OF "1.IH"(9)]
      apply (simp only: set_simps insert_iff empty_iff)
      apply (elim disjE FalseE; simp only:)
      done
  qed
  then show ?thesis by simp
qed

lemma rde_hexColour [rde_intros]: "rde hexColour inp"
  unfolding hexColour_def by (intro rde_intros)

lemma rde_angle [rde_intros]: "rde angle inp"
  unfolding angle_def by (intro rde_intros)

lemma rde_filePath [rde_intros]: "rde filePath inp"
  unfolding filePath_def by (intro rde_intros)

lemma rde_sequencerDBEntry [rde_intros]: "rde sequencerDBEntry inp"
  unfolding sequencerDBEntry_def by (intro rde_intros)

lemma rde_vector2 [rde_intros]: "rde vector2 inp"
  unfolding vector2_def by (auto intro!: rde_intros)

lemma rde_offset [rde_intros]: "rde offset inp"
  unfolding offset_def by (auto intro!: rde_intros)

lemma rde_soundEffect [rde_intros]: "rde soundEffect inp"
  unfolding soundEffect_def by (auto intro!: rde_intros)

lemma rde_soundData [rde_intros]: "rde soundData inp"
  unfolding soundData_def by (auto intro!: rde_intros)

lemma rde_soundConfig [rde_intros]: "rde soundConfig inp"
  unfolding soundConfig_def by (auto intro!: rde_intros)

lemma rde_presetOptions [rde_intros]: "rde presetOptions inp"
  unfolding presetOptions_def by (auto intro!: rde_intros)

lemma rde_ease [rde_intros]: "rde ease inp"
  unfolding ease_def by (intro rde_intros)

lemma rde_shape [rde_intros]: "rde shape inp"
  unfolding shape_def by (auto intro!: rde_intros)

lemma rde_blurOptions [rde_intros]: "rde blurOptions inp"
  unfolding blurOptions_def blurOptions_shape_def by (auto intro!: rde_intros)

lemma rde_effect_filter [rde_intros]: "rde effect_filter inp"
  unfolding effect_filter_def by (auto intro!: rde_intros)

lemma rde_effectOptions [rde_intros]: "rde effectOptions inp"
  unfolding effectOptions_def
  by (auto simp: extend_shape_def easingOptions_shape_def slug_checks_def intro!: rde_intros)

lemma rde_triggers [rde_intros]: "rde triggers inp"
  unfolding triggers_def by (intro rde_intros)

lemma rde_presets [rde_intros]: "rde presets inp"
  unfolding presets_def by (intro rde_intros)

lemma rde_tokenImage_rule [rde_intros]: "rde tokenImage_rule inp"
  unfolding tokenImage_rule_def tokenImage_rule_shape_def tokenImage_ring_def
    tokenImage_colors_def tokenImage_subject_def tokenImage_animation_def
  by (auto intro!: rde_intros)

lemma rde_tokenImage_entry [rde_intros]: "rde tokenImage_entry inp"
  unfolding tokenImage_entry_def by (auto intro!: rde_intros)

lemma rde_partial_referenceObject:
  "(k, s) \<in> set (partial referenceObject_shape) \<Longrightarrow> rde s v"
  by (auto simp: partial_def referenceObject_shape_def intro!: rde_intros)

lemma rde_animationObject [rde_intros]: "rde animationObject inp"
proof -
  have "rde animationObject inp" for p :: "path_elem list"
  proof (induction p inp rule: animationObject.induct)
    case (1 p inp)
    show ?case
      apply (subst animationObject_unfold)
      apply (rule rde_refine_nonEmpty)
      apply (rule rde_z_object_at)
      apply (simp only: extend_partial_referenceObject set_append)
      apply (erule UnE)
       apply (erule rde_partial_referenceObject)
      apply (simp only: set_simps insert_iff empty_iff prod.inject)
      apply (elim disjE conjE FalseE)
      apply (simp only:)
      apply (intro rde_z_optional rde_z_lazy rde_refine_uniqueItems rde_z_array_gen)
      apply (rule "1.IH"; assumption)
      done
  qed
  then show ?thesis by simp
qed

lemma rde_animationObjects [rde_intros]: "rde (animationObjects sv) inp"
  unfolding animationObjects_def by (intro rde_intros)

lemma rde_tokenImages [rde_intros]: "rde tokenImages inp"
  unfolding tokenImages_def by (auto intro!: rde_intros)

subsection \<open>Arrays refined with \<open>uniqueItems\<close>\<close>

lemma rde_loopProperty_item [rde_intros]: "rde loopProperty_item inp"
  unfolding loopProperty_item_def by (auto intro!: rde_intros)

lemma rde_animateProperty_item [rde_intros]: "rde animateProperty_item inp"
  unfolding animateProperty_item_def by (auto intro!: rde_intros)

lemma rde_unique_item_schemas: "el \<in> set unique_item_schemas \<Longrightarrow> rde el inp"
  unfolding unique_item_schemas_def by (auto intro!: rde_intros)

lemma rde_parsed:
  "rde s (Some x) \<Longrightarrow> deep_equal x y \<Longrightarrow> parsed (s p (Some x)) = parsed (s q (Some y))"
  using rdeD [of s "Some x" "Some y" p q] by (simp add: deep_equal_opt_Some same_def)

lemma parsed_z_superRefine:
  "status (z_superRefine f s p inp) \<noteq> Aborted \<Longrightarrow>
   parsed (z_superRefine f s p inp) = parsed (s p inp)"
  by (auto simp: z_superRefine_def Let_def split: if_splits)

lemma status_z_superRefine_Valid:
  "status (z_superRefine f s p inp) = Valid \<Longrightarrow> status (s p inp) = Valid"
  by (auto simp: z_superRefine_def Let_def merge_status_Valid split: if_splits)

lemma refine_uniqueItems_Valid:
  assumes "status (refine_uniqueItems s p inp) = Valid"
  shows "\<exists>arr. parsed (s p inp) = Some (JArray arr) \<and> distinct arr"
  using assms
  by (auto simp: refine_uniqueItems_def status_z_refine_Valid dest: uniqueItems_imp_distinct
       split: option.splits json.splits)

lemma unique_array_deep_equal:
  assumes r: "rde el (Some (xs ! i))"
    and v: "status (refine_uniqueItems (z_array_gen mn el) p (Some (JArray xs))) = Valid"
    and ij: "i < j" "j < length xs"
  shows "\<not> deep_equal (xs ! i) (xs ! j)"
proof
  assume d: "deep_equal (xs ! i) (xs ! j)"
  from v have a: "status (z_array_gen mn el p (Some (JArray xs))) = Valid"
    by (simp add: refine_uniqueItems_def status_z_refine_Valid)
  from rde_parsed [OF r d]
  have "parsed (el (p @ [Idx i]) (Some (xs ! i))) = parsed (el (p @ [Idx j]) (Some (xs ! j)))" .
  moreover from a have "status (z_array_gen mn el p (Some (JArray xs))) \<noteq> Aborted" by simp
  ultimately have "status (refine_uniqueItems (z_array_gen mn el) p (Some (JArray xs))) = Dirty"
    using ij by (simp add: refine_uniqueItems_alike)
  with v show False by simp
qed

lemma animationObjects_deep_equal:
  assumes v: "status (animationObjects sv p (Some (JArray xs))) = Valid"
    and ij: "i < j" "j < length xs"
  shows "\<not> deep_equal (xs ! i) (xs ! j)"
proof
  assume d: "deep_equal (xs ! i) (xs ! j)"
  let ?f = "\<lambda>arr. case arr of Some (JArray xs) \<Rightarrow> sv xs | _ \<Rightarrow> []"
  let ?s = "z_superRefine ?f (z_array_min 1 animationObject)"
  from v have u: "status (refine_uniqueItems ?s p (Some (JArray xs))) = Valid"
    by (simp add: animationObjects_def)
  then obtain arr where pa: "parsed (?s p (Some (JArray xs))) = Some (JArray arr)"
    and da: "distinct arr"
    by (blast dest: refine_uniqueItems_Valid)
  from u have sv: "status (?s p (Some (JArray xs))) = Valid"
    by (simp add: refine_uniqueItems_def status_z_refine_Valid)
  then have a: "status (z_array_min 1 animationObject p (Some (JArray xs))) = Valid"
    by (rule status_z_superRefine_Valid)
  from sv have "parsed (?s p (Some (JArray xs)))
      = parsed (z_array_min 1 animationObject p (Some (JArray xs)))"
    by (intro parsed_z_superRefine) simp
  with pa a have arr: "arr = map (\<lambda>(i, x). elem_of (animationObject (p @ [Idx i]) (Some x)))
      (enumerate 0 xs)"
    by (simp add: parsed_z_array_gen)
  from rde_parsed [OF rde_animationObject d]
  have "parsed (animationObject (p @ [Idx i]) (Some (xs ! i)))
      = parsed (animationObject (p @ [Idx j]) (Some (xs ! j)))" .
  with ij have "\<not> distinct arr" unfolding arr by (intro parsed_elements_alike)
  with da show False by simp
qed

section \<open>Evaluation on concrete documents\<close>

lemmas zod_defs =
  z_string_def z_number_def z_boolean_def z_null_def z_undefined_def z_literal_def z_enum_def
  z_optional_def z_lazy_def mergeArray_def z_array_gen_def z_tuple_def parse_field_def
  mergeObject_def z_object_with_def z_object_def z_union_def z_or_def union_merge_def
  z_discriminatedUnion_def z_refine_def z_superRefine_def refine_nonZero_def refine_nonEmpty_def
  refine_uniqueItems_def INVALID_def invalid_type_at_def merge_status_def keys_of_def Let_def
  safeParse_def prepend_key_def

lemmas rx_defs =
  slug_re_def rollOption_re_def slug_body_def Plus_def Opt_def Chr_def OneOf_def NoneOf_def
  lower_digit_def rx_digit_def rx_word_def rx_word_hyphen_def alnum_i_def hex_i_def
  alnum_hyphen_i_def lower_def upper_def digit_def hexColour_re_def path_char_def
  filePath_re_def sequencerDBEntry_re_def uuid_re_def

lemma rollOption_re_foo: "regex_test rollOption_re ''foo''"
  by (simp add: rx_defs)

lemma rollOption_re_bad: "\<not> regex_test rollOption_re ''not-a-valid-roll-option!''"
  by (simp add: rx_defs)

lemma rollOption_re_Bad: "\<not> regex_test rollOption_re ''Bad''"
  by (simp add: rx_defs)

lemma rollOption_re_ok: "regex_test rollOption_re ''ok''"
  by (simp add: rx_defs)

lemma uuid_re_a_b: "regex_test uuid_re ''a.b''"
  by (simp add: rx_defs)

lemma filePath_re_ab_cd_png: "regex_test filePath_re ''ab/cd.png''"
  by (simp add: rx_defs)

lemma rollOption_re_a: "regex_test rollOption_re ''a''"
  by (simp add: rx_defs)

lemma rollOption_re_b: "regex_test rollOption_re ''b''"
  by (simp add: rx_defs)

lemma predicate_a_b:
  "predicate q (Some (JString ''a'')) = PResult Valid [] (Some (JString ''a''))"
  "predicate q (Some (JString ''b'')) = PResult Valid [] (Some (JString ''b''))"
  by (subst predicate_at,
      simp add: z_union_def union_merge_def rollOption_def z_string_def rollOption_re_a
        rollOption_re_b del: regex_test.simps)+

lemma predicate_and_a_b:
  "status (predicate p (Some (JObject [(''and'', JArray [JString ''a'', JString ''b''])]))) = Valid"
proof -
  have "status (refine_uniqueItems (z_array_min 1 predicate) (p @ [Key ''and''])
         (Some (JArray [JString ''a'', JString ''b'']))) = Valid"
    by (simp add: refine_uniqueItems_def z_refine_def z_array_gen_def mergeArray_def
        merge_status_def predicate_a_b uniqueItems_def quote_def quote_char_def Let_def)
  then show ?thesis
    unfolding predicate_object_status by (simp add: combinator_keys_def keys_of_def)
qed

lemma tokenImages_example:
  "tokenImages [] (Some (JObject [(''_tokenImages'', JArray [JObject
        [(''name'', JString ''n''), (''requires'', JString ''r''), (''uuid'', JString ''a.b''),
         (''rules'', JArray
            [JObject [(''key'', JObject [(''a'', JNumber 1)]), (''value'', JString ''ab/cd.png''),
                      (''animation'', JObject [(''duration'', JNumber 1)])]])]])]))
     = PResult Valid []
         (Some (JObject [(''_tokenImages'', JArray [JObject
            [(''name'', JString ''n''), (''requires'', JString ''r''), (''uuid'', JString ''a.b''),
             (''rules'', JArray
                [JObject [(''key'', JObject []), (''value'', JString ''ab/cd.png''),
                          (''animation'', JObject [(''duration'', JNumber 1)])]])]])]))"
  by (simp add: tokenImages_def JSONValue_def zod_defs uuid_re_a_b filePath_re_ab_cd_png
      filePath_def map_filter_simps uniqueItems_def
      del: regex_test.simps)

lemmas animationObject_at_object = animationObject.simps [of _ "Some (JObject kvs)"] for kvs

lemma animationObjects_example:
  "status (animationObjects (\<lambda>arr. []) []
     (Some (JArray [JObject [(''default'', JBool True)],
                    JObject [(''preset'', JString ''onToken'')]]))) = Valid"
  by (simp add: animationObjects_def zod_defs animationObject_at_object
      partial_def referenceObject_shape_def map_filter_simps uniqueItems_def presets_def
      presetList_def quote_def quote_char_def extra_keys_def)

section \<open>The empty document and the scenario of the specification\<close>

text \<open>
  Claim C10. The empty document \<open>{}\<close> is accepted: the loop over the own keys runs no
  iteration, no issue is collected and \<open>validateAnimationData\<close> returns
  \<open>{success: true}\<close>, whatever \<open>superValidate\<close> does.
\<close>

theorem validateAnimationData_empty_document:
  "validateAnimationData superValidate (JObject []) = Inr Success"
  by (simp add: validateAnimationData_def keys_of_def)

theorem validateAnimationData_empty_document_witness:
  "validateAnimationData (\<lambda>arr. []) (JObject []) = Inr Success"
  by (rule validateAnimationData_empty_document)

text \<open>
  Claim C8. On \<open>{"foo": "not-a-valid-roll-option!"}\<close> validation fails with exactly one
  issue, an \<open>invalid_string\<close> issue of the regex kind at path \<open>["foo"]\<close>: the key \<open>foo\<close> is a
  valid roll option and yields no issue, the value fails the roll-option pattern.
\<close>

theorem validateAnimationData_foo_scenario:
  "validateAnimationData superValidate (JObject [(''foo'', JString ''not-a-valid-roll-option!'')])
     = Inr (Failure [Issue (invalid_string ''regex'') [Key ''foo'']
                       (Some ''String must be a valid roll option.'')])
   \<and> safeParse rollOption (Some (JString ''foo'')) = Inr (ParseSuccess (Some (JString ''foo'')))"
  by (simp add: validateAnimationData_def keys_of_def validate_key_def safeParse_def
      rollOption_def z_string_def rollOption_re_foo rollOption_re_bad prepend_key_def
      del: regex_test.simps)

theorem validateAnimationData_foo_scenario_witness:
  "validateAnimationData (\<lambda>arr. []) (JObject [(''foo'', JString ''not-a-valid-roll-option!'')])
     = Inr (Failure [Issue (invalid_string ''regex'') [Key ''foo'']
                       (Some ''String must be a valid roll option.'')])"
  using validateAnimationData_foo_scenario [of "\<lambda>arr. []"] by simp

section \<open>The root check\<close>

text \<open>
  Claim C2 (the code departs from it). An array and \<open>null\<close> are rejected with one issue at
  the empty path, but the type the issue reports as received is \<open>'object'\<close> for both:
  \<open>data === Array.isArray(data)\<close> compares the value with a boolean and
  \<open>data === 'null'\<close> compares it with a string, so neither test holds for an array or for
  \<open>null\<close>, and \<open>typeof data\<close> is reported. The label \<open>'array'\<close> is reported for the input
  \<open>false\<close> and the label \<open>'null'\<close> for the string \<open>"null"\<close>.
\<close>

theorem validateAnimationData_root_received:
  "validateAnimationData superValidate (JArray xs)
     = Inr (Failure [Issue (invalid_type ''object'' ''object'') []
                       (Some ''JSON must represent an object.'')])
   \<and> validateAnimationData superValidate JNull
     = Inr (Failure [Issue (invalid_type ''object'' ''object'') []
                       (Some ''JSON must represent an object.'')])
   \<and> validateAnimationData superValidate (JBool False)
     = Inr (Failure [Issue (invalid_type ''object'' ''array'') []
                       (Some ''JSON must represent an object.'')])
   \<and> validateAnimationData superValidate (JString ''null'')
     = Inr (Failure [Issue (invalid_type ''object'' ''null'') []
                       (Some ''JSON must represent an object.'')])"
  by (simp add: validateAnimationData_def)

theorem validateAnimationData_root_received_witness:
  "validateAnimationData (\<lambda>arr. []) (JArray [])
     = Inr (Failure [Issue (invalid_type ''object'' ''object'') []
                       (Some ''JSON must represent an object.'')])"
  using validateAnimationData_root_received [of "\<lambda>arr. []" "[]"] by simp

section \<open>The schema exporter's names\<close>

text \<open>
  Claim C9. \<open>getJSONSchema\<close> returns the document that \<open>zodToJsonSchema\<close> builds for the
  \<open>animations\<close> schema or for the \<open>tokenImages\<close> schema when called with the name
  \<open>animations\<close> or \<open>tokenImages\<close>, and for every other name it throws the error
  \<open>Unknown schema name\<close>; it never returns a list of issues.
\<close>

theorem getJSONSchema_names:
  "getJSONSchema zodToJsonSchema superValidate ''animations''
     = Inr (zodToJsonSchema (animations superValidate)
         \<lparr>markdownDescription = True, removeAdditionalStrategy = ''strict'',
          applyRegexFlags = True\<rparr>)
   \<and> getJSONSchema zodToJsonSchema superValidate ''tokenImages''
     = Inr (zodToJsonSchema tokenImages
         \<lparr>markdownDescription = True, removeAdditionalStrategy = ''strict'',
          applyRegexFlags = True\<rparr>)
   \<and> (schemaName \<noteq> ''animations'' \<and> schemaName \<noteq> ''tokenImages''
        \<longrightarrow> getJSONSchema zodToJsonSchema superValidate schemaName
            = Inl (Error ''Unknown schema name''))"
  by (simp add: getJSONSchema_def)

theorem getJSONSchema_names_witness:
  "getJSONSchema (\<lambda>s opts. JNull) (\<lambda>arr. []) ''predicate'' = Inl (Error ''Unknown schema name'')
   \<and> getJSONSchema (\<lambda>s opts. JNull) (\<lambda>arr. []) ''animations'' = Inr JNull"
  using getJSONSchema_names [of "\<lambda>s opts. JNull" "\<lambda>arr. []" "''predicate''"] by simp

section \<open>Aggregation of the issues\<close>

text \<open>
  Claim C1. For every input \<open>validateAnimationData\<close> returns a result and throws no
  exception (given that \<open>superValidate\<close> returns). On a plain object the reported issues
  are the concatenation, over the own keys in order, of the issues reported for the
  document that holds that key alone with its value, and the result is success exactly
  when this concatenation is empty. So the issues of one key depend on that key and its
  value only: an entry under another key neither suppresses nor alters them.
\<close>

theorem validateAnimationData_aggregates:
  "(\<exists>r. validateAnimationData superValidate data = Inr r)
   \<and> validateAnimationData superValidate (JObject kvs) =
       (let per_key =
              concat (map (\<lambda>k. case map_of kvs k of
                                  Some v \<Rightarrow> reported (validateAnimationData superValidate (JObject [(k, v)]))
                                | None \<Rightarrow> [])
                        (keys_of kvs))
        in Inr (if per_key = [] then Success else Failure per_key))"
  unfolding Let_def per_key_alone
  by (simp add: validateAnimationData_returns validateAnimationData_object)

theorem validateAnimationData_aggregates_witness:
  "validateAnimationData (\<lambda>arr. []) (JObject [(''foo'', JArray []), (''Bad'', JString ''ok'')])
     = Inr (Failure
         [Issue (too_small 1 True ''array'') [Key ''foo''] None,
          Issue (invalid_string ''regex'') [Key ''Bad''] (Some ''Must be a valid roll option.'')])"
  using validateAnimationData_aggregates
          [of "\<lambda>arr. []" JNull "[(''foo'', JArray []), (''Bad'', JString ''ok'')]"]
  by (simp add: reported_def validateAnimationData_def validate_key_def zod_defs
      animationObjects_def rollOption_def rollOption_re_foo rollOption_re_Bad rollOption_re_ok
      uniqueItems_def
      del: regex_test.simps)

section \<open>Paths of the issues of a value\<close>

text \<open>
  Claim C3. On a plain object the reported issues are, key by key: for the key
  \<open>_tokenImages\<close> the issues of the token-images schema on the whole object, and for any
  other key the issue of the key itself, if it is no roll option, followed by the issues
  that parsing the value alone reports (as a roll option when the value is a string, as an
  array of animation objects otherwise), each with the key put in front of its path.
  Hence every issue \<open>j\<close> of the value of a key other than \<open>_tokenImages\<close> is reported with
  the path \<open>key # path j\<close>.
\<close>

theorem validateAnimationData_value_paths:
  "reported (validateAnimationData superValidate (JObject kvs)) =
     concat (map
       (\<lambda>key.
          if key = ''_tokenImages'' then parse_issues tokenImages (Some (JObject kvs))
          else (if regex_test rollOption_re key then []
                else [Issue (invalid_string ''regex'') [Key key]
                        (Some ''Must be a valid roll option.'')])
               @ map (\<lambda>j. Issue (code j) (Key key # path j) (message j))
                   (case map_of kvs key of
                      Some (JString s) \<Rightarrow> parse_issues rollOption (map_of kvs key)
                    | _ \<Rightarrow> parse_issues (animationObjects superValidate) (map_of kvs key)))
       (keys_of kvs))
   \<and> (\<forall>key \<in> set (keys_of kvs). key \<noteq> ''_tokenImages'' \<longrightarrow>
        (\<forall>j \<in> set (case map_of kvs key of
                       Some (JString s) \<Rightarrow> parse_issues rollOption (map_of kvs key)
                     | _ \<Rightarrow> parse_issues (animationObjects superValidate) (map_of kvs key)).
           Issue (code j) (Key key # path j) (message j)
             \<in> set (reported (validateAnimationData superValidate (JObject kvs)))))"
proof -
  have e: "entry_issues superValidate kvs =
        (\<lambda>key.
          if key = ''_tokenImages'' then parse_issues tokenImages (Some (JObject kvs))
          else (if regex_test rollOption_re key then []
                else [Issue (invalid_string ''regex'') [Key key]
                        (Some ''Must be a valid roll option.'')])
               @ map (\<lambda>j. Issue (code j) (Key key # path j) (message j))
                   (case map_of kvs key of
                      Some (JString s) \<Rightarrow> parse_issues rollOption (map_of kvs key)
                    | _ \<Rightarrow> parse_issues (animationObjects superValidate) (map_of kvs key)))"
    by (rule ext)
      (simp add: entry_issues_def key_issues_def value_schema_def prepend_key_def
        del: regex_test.simps split: option.splits json.splits)
  have r: "reported (validateAnimationData superValidate (JObject kvs)) =
        concat (map (entry_issues superValidate kvs) (keys_of kvs))"
    by (simp add: validateAnimationData_object reported_def)
  show ?thesis
    unfolding r
  proof (intro conjI ballI impI)
    show "concat (map (entry_issues superValidate kvs) (keys_of kvs)) =
      concat (map
       (\<lambda>key.
          if key = ''_tokenImages'' then parse_issues tokenImages (Some (JObject kvs))
          else (if regex_test rollOption_re key then []
                else [Issue (invalid_string ''regex'') [Key key]
                        (Some ''Must be a valid roll option.'')])
               @ map (\<lambda>j. Issue (code j) (Key key # path j) (message j))
                   (case map_of kvs key of
                      Some (JString s) \<Rightarrow> parse_issues rollOption (map_of kvs key)
                    | _ \<Rightarrow> parse_issues (animationObjects superValidate) (map_of kvs key)))
       (keys_of kvs))"
      by (simp only: e)
  next
    fix key j
    assume k: "key \<in> set (keys_of kvs)" and n: "key \<noteq> ''_tokenImages''"
      and j: "j \<in> set (case map_of kvs key of
                       Some (JString s) \<Rightarrow> parse_issues rollOption (map_of kvs key)
                     | _ \<Rightarrow> parse_issues (animationObjects superValidate) (map_of kvs key))"
    from n j have "Issue (code j) (Key key # path j) (message j)
        \<in> set (entry_issues superValidate kvs key)"
      unfolding e by (simp del: regex_test.simps)
    with k show "Issue (code j) (Key key # path j) (message j)
        \<in> set (concat (map (entry_issues superValidate kvs) (keys_of kvs)))"
      by auto
  qed
qed

theorem validateAnimationData_value_paths_witness:
  "parse_issues (animationObjects (\<lambda>arr. [])) (Some (JArray [JObject []]))
     = [Issue custom [Idx 0] (Some ''Object must not be empty.'')]
   \<and> reported (validateAnimationData (\<lambda>arr. []) (JObject [(''foo'', JArray [JObject []])]))
     = [Issue custom [Key ''foo'', Idx 0] (Some ''Object must not be empty.'')]"
proof -
  have p: "parse_issues (animationObjects (\<lambda>arr. [])) (Some (JArray [JObject []]))
     = [Issue custom [Idx 0] (Some ''Object must not be empty.'')]"
    by (simp add: parse_issues_def animationObjects_def zod_defs animationObject_at_object
        partial_def referenceObject_shape_def map_filter_simps nonEmpty_msg_def uniqueItems_def)
  from validateAnimationData_value_paths [of "\<lambda>arr. []" "[(''foo'', JArray [JObject []])]"]
  have "reported (validateAnimationData (\<lambda>arr. []) (JObject [(''foo'', JArray [JObject []])]))
     = [Issue custom [Key ''foo'', Idx 0] (Some ''Object must not be empty.'')]"
    by (simp add: p keys_of_def rollOption_re_foo del: regex_test.simps)
  with p show ?thesis by simp
qed

section \<open>The unique-items refinement\<close>




section \<open>The \<open>Blur\<close> filter\<close>




section \<open>The grammar of predicates\<close>

text \<open>
  Claim C6. A predicate object that is accepted and holds one of the keys \<open>and\<close>, \<open>or\<close>,
  \<open>xor\<close>, \<open>nand\<close>, \<open>nor\<close>, \<open>iff\<close> holds under it a non-empty array, no two elements of which
  are deep-equal. A predicate object that holds one of the keys \<open>eq\<close>, \<open>gt\<close>, \<open>gte\<close>, \<open>lt\<close>,
  \<open>lte\<close> is accepted exactly when it holds no other key and the value is an array of two
  elements, the first a roll option and the second a roll option or a number. So
  \<open>{eq: ["a", "b"]}\<close> is accepted and \<open>{eq: ["a", "a", "a"]}\<close> is not.
\<close>

theorem predicate_grammar:
  "(c \<in> set [''and'', ''or'', ''xor'', ''nand'', ''nor'', ''iff''] \<and> map_of kvs c = Some v
      \<and> status (predicate p (Some (JObject kvs))) = Valid
     \<longrightarrow> (\<exists>arr. v = JArray arr \<and> arr \<noteq> []
           \<and> (\<forall>i j. i < j \<and> j < length arr \<longrightarrow> \<not> deep_equal (arr ! i) (arr ! j))))
   \<and> (k \<in> set [''eq'', ''gt'', ''gte'', ''lt'', ''lte''] \<and> map_of kvs' k = Some w
     \<longrightarrow> (status (predicate p (Some (JObject kvs'))) = Valid \<longleftrightarrow>
           set (keys_of kvs') \<subseteq> {k}
           \<and> (\<exists>a b. w = JArray [JString a, b] \<and> regex_test rollOption_re a
                \<and> ((\<exists>s. b = JString s \<and> regex_test rollOption_re s) \<or> (\<exists>n. b = JNumber n)))))
   \<and> status (predicate p (Some (JObject [(''eq'', JArray [JString ''a'', JString ''b''])]))) = Valid
   \<and> status (predicate p
        (Some (JObject [(''eq'', JArray [JString ''a'', JString ''a'', JString ''a''])]))) \<noteq> Valid"
proof (intro conjI impI)
  assume a: "c \<in> set [''and'', ''or'', ''xor'', ''nand'', ''nor'', ''iff''] \<and> map_of kvs c = Some v
      \<and> status (predicate p (Some (JObject kvs))) = Valid"
  then have c: "c \<in> set combinator_keys" by (simp only: combinator_keys_def)
  from a have m: "map_of kvs c = Some v" and v: "status (predicate p (Some (JObject kvs))) = Valid"
    by simp_all
  show "\<exists>arr. v = JArray arr \<and> arr \<noteq> []
           \<and> (\<forall>i j. i < j \<and> j < length arr \<longrightarrow> \<not> deep_equal (arr ! i) (arr ! j))"
    using c m v by (rule predicate_combinator)
next
  assume a: "k \<in> set [''eq'', ''gt'', ''gte'', ''lt'', ''lte''] \<and> map_of kvs' k = Some w"
  then have k: "k \<in> set comparison_keys" by (simp only: comparison_keys_def)
  from a have m: "map_of kvs' k = Some w" by simp
  show "status (predicate p (Some (JObject kvs'))) = Valid \<longleftrightarrow>
           set (keys_of kvs') \<subseteq> {k}
           \<and> (\<exists>a b. w = JArray [JString a, b] \<and> regex_test rollOption_re a
                \<and> ((\<exists>s. b = JString s \<and> regex_test rollOption_re s) \<or> (\<exists>n. b = JNumber n)))"
    using k m by (rule predicate_comparison)
next
  have "''eq'' \<in> set comparison_keys" by (simp add: comparison_keys_def)
  from predicate_comparison [OF this, of "[(''eq'', JArray [JString ''a'', JString ''b''])]"
      "JArray [JString ''a'', JString ''b'']" p]
  show "status (predicate p (Some (JObject [(''eq'', JArray [JString ''a'', JString ''b''])])))
      = Valid"
    by (simp add: keys_of_def rollOption_re_a rollOption_re_b del: regex_test.simps)
next
  have "''eq'' \<in> set comparison_keys" by (simp add: comparison_keys_def)
  from predicate_comparison [OF this,
      of "[(''eq'', JArray [JString ''a'', JString ''a'', JString ''a''])]"
      "JArray [JString ''a'', JString ''a'', JString ''a'']" p]
  show "status (predicate p
        (Some (JObject [(''eq'', JArray [JString ''a'', JString ''a'', JString ''a''])]))) \<noteq> Valid"
    by (simp del: regex_test.simps)
qed

theorem predicate_grammar_witness:
  "status (predicate [] (Some (JObject [(''and'', JArray [JString ''a'', JString ''b''])]))) = Valid
   \<and> \<not> deep_equal (JString ''a'') (JString ''b'')
   \<and> status (predicate [] (Some (JObject [(''lt'', JArray [JString ''a'', JNumber 2])]))) = Valid
   \<and> status (predicate [] (Some (JObject [(''and'', JArray [])]))) \<noteq> Valid"
proof -
  let ?kvs = "[(''and'', JArray [JString ''a'', JString ''b''])]"
  note g = predicate_grammar [of "''and''" ?kvs "JArray [JString ''a'', JString ''b'']" "[]"
      "''lt''" "[(''lt'', JArray [JString ''a'', JNumber 2])]" "JArray [JString ''a'', JNumber 2]"]
  note e = predicate_grammar [of "''and''" "[(''and'', JArray [])]" "JArray []" "[]"
      "''lt''" "[(''lt'', JArray [JString ''a'', JNumber 2])]" "JArray [JString ''a'', JNumber 2]"]
  have 1: "status (predicate [] (Some (JObject ?kvs))) = Valid" by (rule predicate_and_a_b)
  from g 1 have "\<exists>arr. JArray [JString ''a'', JString ''b''] = JArray arr \<and> arr \<noteq> []
           \<and> (\<forall>i j. i < j \<and> j < length arr \<longrightarrow> \<not> deep_equal (arr ! i) (arr ! j))"
    by simp
  then have "\<forall>i j. i < j \<and> j < length [JString ''a'', JString ''b'']
      \<longrightarrow> \<not> deep_equal ([JString ''a'', JString ''b''] ! i) ([JString ''a'', JString ''b''] ! j)"
    by simp
  then have 2: "\<not> deep_equal (JString ''a'') (JString ''b'')"
    by (simp add: nth_Cons' all_conj_distrib)
  from g have 3: "status (predicate [] (Some (JObject [(''lt'', JArray [JString ''a'', JNumber 2])])))
      = Valid"
    by (simp add: keys_of_def rollOption_re_a del: regex_test.simps)
  from e have 4: "status (predicate [] (Some (JObject [(''and'', JArray [])]))) \<noteq> Valid"
    by auto
  from 1 2 3 4 show ?thesis by simp
qed

section \<open>The token-images schema\<close>

text \<open>
  Claim C4 (amended). The \<open>tokenImages\<close> schema reads the property \<open>_tokenImages\<close> of the root
  object and nothing else: two root objects that agree on this property get the same
  result, so the keys beside \<open>_tokenImages\<close> are neither rejected nor looked at by it. Below
  the root it is closed: when it accepts, \<open>_tokenImages\<close> is a non-empty array of entries
  that hold no unknown key at the level of the entry, of a rule object, of its
  \<open>animation\<close> and \<open>ring\<close>, and of the \<open>subject\<close> and \<open>colors\<close> of the ring (\<open>closed_entry\<close>); hence
  an unknown key at any of these levels makes it fail.
\<close>

theorem tokenImages_closed_levels:
  "(map_of kvs ''_tokenImages'' = map_of kvs' ''_tokenImages''
      \<longrightarrow> tokenImages p (Some (JObject kvs)) = tokenImages p (Some (JObject kvs')))
   \<and> (status (tokenImages p (Some (JObject kvs))) = Valid
      \<longrightarrow> (\<exists>entries. map_of kvs ''_tokenImages'' = Some (JArray entries) \<and> entries \<noteq> []
             \<and> list_all closed_entry entries))"
proof (intro conjI impI)
  assume "map_of kvs ''_tokenImages'' = map_of kvs' ''_tokenImages''"
  then show "tokenImages p (Some (JObject kvs)) = tokenImages p (Some (JObject kvs'))"
    by (rule tokenImages_own_key)
next
  assume "status (tokenImages p (Some (JObject kvs))) = Valid"
  then show "\<exists>entries. map_of kvs ''_tokenImages'' = Some (JArray entries) \<and> entries \<noteq> []
             \<and> list_all closed_entry entries"
    by (rule tokenImages_closed)
qed

theorem tokenImages_closed_levels_witness:
  "tokenImages [] (Some (JObject [(''_tokenImages'', JArray [JObject
        [(''name'', JString ''n''), (''requires'', JString ''r''), (''uuid'', JString ''a.b''),
         (''rules'', JArray
            [JObject [(''key'', JObject [(''a'', JNumber 1)]), (''value'', JString ''ab/cd.png''),
                      (''animation'', JObject [(''duration'', JNumber 1)])]])]]),
        (''foo'', JString ''bar'')]))
     = PResult Valid []
         (Some (JObject [(''_tokenImages'', JArray [JObject
            [(''name'', JString ''n''), (''requires'', JString ''r''), (''uuid'', JString ''a.b''),
             (''rules'', JArray
                [JObject [(''key'', JObject []), (''value'', JString ''ab/cd.png''),
                          (''animation'', JObject [(''duration'', JNumber 1)])]])]])]))
   \<and> closed_entry (JObject
        [(''name'', JString ''n''), (''requires'', JString ''r''), (''uuid'', JString ''a.b''),
         (''rules'', JArray
            [JObject [(''key'', JObject [(''a'', JNumber 1)]), (''value'', JString ''ab/cd.png''),
                      (''animation'', JObject [(''duration'', JNumber 1)])]])])
   \<and> status (tokenImages [] (Some (JObject [(''_tokenImages'', JArray [JObject
        [(''name'', JString ''n''), (''requires'', JString ''r''), (''uuid'', JString ''a.b''),
         (''rules'', JArray
            [JObject [(''key'', JObject [(''a'', JNumber 1)]), (''value'', JString ''ab/cd.png''),
                      (''animation'', JObject [(''duration'', JNumber 1)])]]),
         (''extra'', JNull)]])]))) \<noteq> Valid"
proof -
  let ?rules = "JArray
            [JObject [(''key'', JObject [(''a'', JNumber 1)]), (''value'', JString ''ab/cd.png''),
                      (''animation'', JObject [(''duration'', JNumber 1)])]]"
  let ?entry = "JObject
        [(''name'', JString ''n''), (''requires'', JString ''r''), (''uuid'', JString ''a.b''),
         (''rules'', ?rules)]"
  let ?bad = "JObject
        [(''name'', JString ''n''), (''requires'', JString ''r''), (''uuid'', JString ''a.b''),
         (''rules'', ?rules), (''extra'', JNull)]"
  note t = tokenImages_closed_levels
    [of "[(''_tokenImages'', JArray [?entry])]"
        "[(''_tokenImages'', JArray [?entry]), (''foo'', JString ''bar'')]" "[]"]
  note b = tokenImages_closed_levels
    [of "[(''_tokenImages'', JArray [?bad])]" "[(''_tokenImages'', JArray [?bad])]" "[]"]
  from t have 1: "tokenImages [] (Some (JObject [(''_tokenImages'', JArray [?entry]),
      (''foo'', JString ''bar'')])) = tokenImages [] (Some (JObject [(''_tokenImages'', JArray [?entry])]))"
    by simp
  from t have 2: "closed_entry ?entry" by (simp add: tokenImages_example)
  have "\<not> closed_entry ?bad" by (simp add: closed_entry_def keys_of_def)
  with b have 3: "status (tokenImages [] (Some (JObject [(''_tokenImages'', JArray [?bad])])))
      \<noteq> Valid"
    by auto
  from 1 2 3 show ?thesis by (simp only: tokenImages_example simp_thms)
qed

text \<open>
  As the claim states it, the schema would reject a key beside \<open>_tokenImages\<close>, and an unknown
  key at every level. It accepts the document below, which holds the key \<open>foo\<close> beside
  \<open>_tokenImages\<close> and the key \<open>a\<close> inside the object given for the \<open>key\<close> of a rule; both are
  left out of the value it returns.
\<close>

theorem tokenImages_sibling_counterexample:
  "tokenImages [] (Some (JObject [(''_tokenImages'', JArray [JObject
        [(''name'', JString ''n''), (''requires'', JString ''r''), (''uuid'', JString ''a.b''),
         (''rules'', JArray
            [JObject [(''key'', JObject [(''a'', JNumber 1)]), (''value'', JString ''ab/cd.png''),
                      (''animation'', JObject [(''duration'', JNumber 1)])]])]]),
        (''foo'', JString ''bar'')]))
     = PResult Valid []
         (Some (JObject [(''_tokenImages'', JArray [JObject
            [(''name'', JString ''n''), (''requires'', JString ''r''), (''uuid'', JString ''a.b''),
             (''rules'', JArray
                [JObject [(''key'', JObject []), (''value'', JString ''ab/cd.png''),
                          (''animation'', JObject [(''duration'', JNumber 1)])]])]])]))"
  by (simp add: tokenImages_def JSONValue_def zod_defs uuid_re_a_b filePath_re_ab_cd_png
      filePath_def map_filter_simps uniqueItems_def
      del: regex_test.simps)

end
